theory Spec2Isabelle
  imports Main
begin

section \<open>Python strings\<close>

text \<open>
  The agent of \<^verbatim>\<open>src/langgraph_agents/agent.py\<close> (and its twin
  \<^verbatim>\<open>src/beeai_agents/agent.py\<close>, which differs in comments and console texts only)
  works on Python \<^verbatim>\<open>str\<close> values: sequences of Unicode code points. A code point is a
  natural number here, and a string a list of them; \<open>lit\<close> turns an ASCII literal of the
  source into such a list.
\<close>

type_synonym codepoint = nat
type_synonym str = "codepoint list"

definition lit :: "string \<Rightarrow> str" where
  "lit s = map of_char s"

text \<open>
  \<^verbatim>\<open>str.strip()\<close> without argument removes the code points for which CPython's
  \<^verbatim>\<open>Py_UNICODE_ISSPACE\<close> holds: the ASCII ones (tab to carriage return, the four
  separators 0x1C to 0x1F, space) and the Unicode ones of bidirectional type WS, B or S.
\<close>

definition isspace :: "codepoint \<Rightarrow> bool" where
  "isspace c \<longleftrightarrow>
     (0x09 \<le> c \<and> c \<le> 0x0D) \<or> (0x1C \<le> c \<and> c \<le> 0x20) \<or> c = 0x85 \<or> c = 0xA0 \<or>
     c = 0x1680 \<or> (0x2000 \<le> c \<and> c \<le> 0x200A) \<or> c = 0x2028 \<or> c = 0x2029 \<or>
     c = 0x202F \<or> c = 0x205F \<or> c = 0x3000"

definition lstrip :: "str \<Rightarrow> str" where
  "lstrip s = dropWhile isspace s"

definition rstrip :: "str \<Rightarrow> str" where
  "rstrip s = rev (dropWhile isspace (rev s))"

definition strip :: "str \<Rightarrow> str" where
  "strip s = rstrip (lstrip s)"

text \<open>\<^verbatim>\<open>s.replace(c, "")\<close> for a one-character \<open>c\<close>: every occurrence goes.\<close>

definition remove_char :: "codepoint \<Rightarrow> str \<Rightarrow> str" where
  "remove_char c s = filter (\<lambda>x. x \<noteq> c) s"

text \<open>
  \<^verbatim>\<open>s.split(sep)\<close> for a one-character separator: the pieces between the separators,
  empty pieces included, so that the empty string gives one empty piece. \<open>cur\<close> is
  the piece being read.
\<close>

fun split_acc :: "codepoint \<Rightarrow> str \<Rightarrow> str \<Rightarrow> str list" where
  "split_acc sep cur [] = [cur]"
| "split_acc sep cur (c # cs) =
     (if c = sep then cur # split_acc sep [] cs else split_acc sep (cur @ [c]) cs)"

definition split :: "codepoint \<Rightarrow> str \<Rightarrow> str list" where
  "split sep s = split_acc sep [] s"

text \<open>\<^verbatim>\<open>sep.join(parts)\<close>.\<close>

fun join :: "str \<Rightarrow> str list \<Rightarrow> str" where
  "join sep [] = []"
| "join sep [p] = p"
| "join sep (p # q # ps) = p @ sep @ join sep (q # ps)"

definition comma :: codepoint where
  "comma = 0x2C"

definition squote :: codepoint where
  "squote = 0x27"

definition dquote :: codepoint where
  "dquote = 0x22"

section \<open>Stage 2, the pure parts\<close>

text \<open>
  Line 44: \<^verbatim>\<open>country_res.content.strip().lower().replace("'", "").replace('"', "")\<close>.
  \<^verbatim>\<open>str.lower\<close> follows the Unicode character database, which is no part of the
  repository: it is the parameter \<open>lower\<close>.
\<close>

definition normalize_country :: "(str \<Rightarrow> str) \<Rightarrow> str \<Rightarrow> str" where
  "normalize_country lower content =
     remove_char dquote (remove_char squote (lower (strip content)))"

text \<open>On ASCII text \<^verbatim>\<open>str.lower\<close> maps A to Z to a to z and keeps the rest.\<close>

definition ascii_lower :: "str \<Rightarrow> str" where
  "ascii_lower s = map (\<lambda>c. if 0x41 \<le> c \<and> c \<le> 0x5A then c + 0x20 else c) s"

text \<open>Lines 47 and 48: the target URL.\<close>

definition base_url :: str where
  "base_url = lit ''https://trends24.in/''"

definition build_url :: "str \<Rightarrow> str" where
  "build_url country =
     (if country \<noteq> lit ''global'' then base_url @ country @ lit ''/'' else base_url)"

text \<open>Line 53: the search query; the sentinel is replaced by the empty string.\<close>

definition search_query :: "str \<Rightarrow> str" where
  "search_query country =
     lit ''site:trends24.in top trending topics '' @
     (if country \<noteq> lit ''global'' then country else [])"

text \<open>Lines 63 and 65: the trend list read from the model's reply.\<close>

definition parse_trends :: "str \<Rightarrow> str list" where
  "parse_trends content =
     take 5 (map strip (filter (\<lambda>t. strip t \<noteq> []) (split comma content)))"

section \<open>Search results\<close>

text \<open>
  \<^verbatim>\<open>search_wrapper.results\<close> returns a list of dictionaries from field names to texts
  (\<^verbatim>\<open>snippet\<close>, \<^verbatim>\<open>title\<close>, \<^verbatim>\<open>link\<close>). A dictionary is an association list in
  insertion order, which is the order Python prints it in.
\<close>

type_synonym search_result = "(str \<times> str) list"

text \<open>\<^verbatim>\<open>r.get(key, default)\<close>.\<close>

definition dict_get :: "search_result \<Rightarrow> str \<Rightarrow> str \<Rightarrow> str" where
  "dict_get r key dflt = (case map_of r key of None \<Rightarrow> dflt | Some v \<Rightarrow> v)"

text \<open>Line 56: \<^verbatim>\<open>"\n".join([r.get('snippet', '') for r in results])\<close>.\<close>

definition results_text :: "search_result list \<Rightarrow> str" where
  "results_text results =
     join (lit ''\<newline>'') (map (\<lambda>r. dict_get r (lit ''snippet'') []) results)"

text \<open>
  Line 79 formats the whole result list into the prompt: \<^verbatim>\<open>f"{search_results}"\<close> is
  \<^verbatim>\<open>str\<close> of a list, that is, the \<^verbatim>\<open>repr\<close> of every dictionary in it. CPython's
  \<^verbatim>\<open>repr\<close> of a string picks the quote (double quotes only when the text has a single
  quote and no double quote), escapes the quote, the backslash and the control characters,
  and writes a code point beyond ASCII as it is when the Unicode database calls it
  printable (the parameter \<open>printable\<close>) and as a hexadecimal escape otherwise.
\<close>

definition hexdigit :: "nat \<Rightarrow> codepoint" where
  "hexdigit n = (if n < 10 then 0x30 + n else 0x61 + (n - 10))"

fun hex_digits :: "nat \<Rightarrow> nat \<Rightarrow> str" where
  "hex_digits 0 n = []"
| "hex_digits (Suc k) n = hex_digits k (n div 16) @ [hexdigit (n mod 16)]"

definition backslash :: codepoint where
  "backslash = 0x5C"

definition repr_quote :: "str \<Rightarrow> codepoint" where
  "repr_quote s = (if squote \<in> set s \<and> dquote \<notin> set s then dquote else squote)"

definition repr_char :: "(codepoint \<Rightarrow> bool) \<Rightarrow> codepoint \<Rightarrow> codepoint \<Rightarrow> str" where
  "repr_char printable quote ch =
     (if ch = quote \<or> ch = backslash then [backslash, ch]
      else if ch = 0x09 then [backslash, 0x74]
      else if ch = 0x0A then [backslash, 0x6E]
      else if ch = 0x0D then [backslash, 0x72]
      else if ch < 0x20 \<or> ch = 0x7F then [backslash, 0x78] @ hex_digits 2 ch
      else if ch < 0x7F then [ch]
      else if \<not> printable ch then
        (if ch \<le> 0xFF then [backslash, 0x78] @ hex_digits 2 ch
         else if ch \<le> 0xFFFF then [backslash, 0x75] @ hex_digits 4 ch
         else [backslash, 0x55] @ hex_digits 8 ch)
      else [ch])"

definition repr_str :: "(codepoint \<Rightarrow> bool) \<Rightarrow> str \<Rightarrow> str" where
  "repr_str printable s =
     [repr_quote s] @ concat (map (repr_char printable (repr_quote s)) s) @ [repr_quote s]"

definition repr_dict :: "(codepoint \<Rightarrow> bool) \<Rightarrow> search_result \<Rightarrow> str" where
  "repr_dict printable r =
     lit ''{'' @
     join (lit '', '')
       (map (\<lambda>(k, v). repr_str printable k @ lit '': '' @ repr_str printable v) r) @
     lit ''}''"

definition str_of_results :: "(codepoint \<Rightarrow> bool) \<Rightarrow> search_result list \<Rightarrow> str" where
  "str_of_results printable results =
     lit ''['' @ join (lit '', '') (map (repr_dict printable) results) @ lit '']''"

section \<open>The prompts\<close>

text \<open>Lines 37 to 42.\<close>

definition country_prompt :: "str \<Rightarrow> str" where
  "country_prompt q =
     lit ''Identify if a specific country is mentioned in the following user query. '' @
     lit ''Return only the country name in English (lowercase), or 'global' if no country is specified. '' @
     lit ''Return ONLY the word, no explanation. '' @
     lit ''Query: '' @ q"

text \<open>Lines 57 to 61.\<close>

definition extract_prompt :: "str \<Rightarrow> str \<Rightarrow> str" where
  "extract_prompt url text =
     lit ''Based on these search results for '' @ url @
     lit '', extract EXACTLY the TOP 5 trending topics for today. '' @
     lit ''Return them as a comma-separated list, nothing else. '' @
     lit ''Results:\<newline>'' @ text"

text \<open>Line 72.\<close>

definition context_query :: "str \<Rightarrow> str" where
  "context_query trend =
     lit ''why is '' @ trend @ lit '' trending news today source article''"

text \<open>Lines 75 to 80; the trend stands between single quotes.\<close>

definition context_prompt :: "(codepoint \<Rightarrow> bool) \<Rightarrow> str \<Rightarrow> search_result list \<Rightarrow> str" where
  "context_prompt printable trend results =
     lit ''Explain briefly why '' @ [squote] @ trend @ [squote] @
     lit '' is trending. Use the search results below. '' @
     lit ''You MUST include at least one source URL from the results. '' @
     lit ''Format: Friendly explanation followed by [Source: URL]\<newline>\<newline>'' @
     lit ''Search Results:\<newline>'' @ str_of_results printable results"

text \<open>Lines 90 to 96; the three emojis are U+1F4A1, U+1F4F0 and U+1F680.\<close>

definition final_prompt :: "str \<Rightarrow> str" where
  "final_prompt reports_text =
     lit ''Synthesize the following trend analysis into a single, coherent, and friendly report. '' @
     lit ''You are an insightful X trends analyst. Use emojis ('' @ [0x1F4A1] @ lit '', '' @
     [0x1F4F0] @ lit '', '' @ [0x1F680] @ lit '', etc.) to make it engaging. '' @
     lit ''Ensure each of the 5 trends has its explanation and MUST include the source URL. '' @
     lit ''Greet the user as a friend.\<newline>\<newline>'' @
     lit ''Context Reports:\<newline>'' @ reports_text"

section \<open>State, services and effects\<close>

text \<open>Lines 19 to 23: the state of one run of the pipeline.\<close>

record AgentState =
  query :: str
  trends :: "str list"
  context_reports :: "str list"
  final_report :: str

text \<open>
  A node returns a dictionary with the fields it sets; the graph stores each of them over
  the old value of the field (no field of \<^verbatim>\<open>AgentState\<close> declares a reducer).
\<close>

datatype field_write =
  W_query str
| W_trends "str list"
| W_context_reports "str list"
| W_final_report str

fun apply_write :: "AgentState \<Rightarrow> field_write \<Rightarrow> AgentState" where
  "apply_write st (W_query v) = st\<lparr>query := v\<rparr>"
| "apply_write st (W_trends v) = st\<lparr>trends := v\<rparr>"
| "apply_write st (W_context_reports v) = st\<lparr>context_reports := v\<rparr>"
| "apply_write st (W_final_report v) = st\<lparr>final_report := v\<rparr>"

definition apply_writes :: "AgentState \<Rightarrow> field_write list \<Rightarrow> AgentState" where
  "apply_writes st ws = foldl apply_write st ws"

text \<open>
  The language model and the web search are services outside the repository. Each call
  may raise, and may answer differently the next time: a service reads and changes a
  world \<open>'w\<close> of its own, and \<open>None\<close> stands for an exception. \<^verbatim>\<open>str.lower\<close>,
  \<^verbatim>\<open>str.isprintable\<close> and \<^verbatim>\<open>get_message_text\<close> are library functions, parameters
  as well. The console lines written with \<^verbatim>\<open>print\<close> are left out.
\<close>

record ('w, 'm) deps =
  llm_ainvoke :: "'w \<Rightarrow> str \<Rightarrow> (str \<times> 'w) option"
  search_results :: "'w \<Rightarrow> str \<Rightarrow> nat \<Rightarrow> (search_result list \<times> 'w) option"
  str_lower :: "str \<Rightarrow> str"
  isprintable :: "codepoint \<Rightarrow> bool"
  get_message_text :: "'m \<Rightarrow> str"

datatype error = LLMFailure | SearchFailure | GraphRecursionError | UnknownNode string

text \<open>What a run did, in order: the nodes entered and the calls made, with their answers.\<close>

datatype event =
  NodeEntered string
| LLMCall str str
| SearchCall str nat "search_result list"

record 'w run =
  world :: 'w
  trace :: "event list"

text \<open>\<^verbatim>\<open>(await llm.ainvoke(prompt)).content\<close>.\<close>

definition ainvoke :: "('w, 'm) deps \<Rightarrow> str \<Rightarrow> 'w run \<Rightarrow> error + (str \<times> 'w run)" where
  "ainvoke d prompt r =
     (case llm_ainvoke d (world r) prompt of
        None \<Rightarrow> Inl LLMFailure
      | Some (content, w) \<Rightarrow>
          Inr (content, \<lparr>world = w, trace = trace r @ [LLMCall prompt content]\<rparr>))"

text \<open>\<^verbatim>\<open>search_wrapper.results(query, max_results=n)\<close>.\<close>

definition results ::
  "('w, 'm) deps \<Rightarrow> str \<Rightarrow> nat \<Rightarrow> 'w run \<Rightarrow> error + (search_result list \<times> 'w run)" where
  "results d q n r =
     (case search_results d (world r) q n of
        None \<Rightarrow> Inl SearchFailure
      | Some (found, w) \<Rightarrow>
          Inr (found, \<lparr>world = w, trace = trace r @ [SearchCall q n found]\<rparr>))"

section \<open>The three nodes\<close>

type_synonym ('w, 'm) node =
  "('w, 'm) deps \<Rightarrow> AgentState \<Rightarrow> 'w run \<Rightarrow> error + (field_write list \<times> 'w run)"

text \<open>Lines 32 to 65.\<close>

definition analyze_and_get_trends :: "('w, 'm) node" where
  "analyze_and_get_trends d state r =
     (case ainvoke d (country_prompt (query state)) r of
        Inl e \<Rightarrow> Inl e
      | Inr (country_res, r1) \<Rightarrow>
          (let country = normalize_country (str_lower d) country_res;
               url = build_url country
           in case results d (search_query country) 5 r1 of
                Inl e \<Rightarrow> Inl e
              | Inr (found, r2) \<Rightarrow>
                  (case ainvoke d (extract_prompt url (results_text found)) r2 of
                     Inl e \<Rightarrow> Inl e
                   | Inr (trends_res, r3) \<Rightarrow> Inr ([W_trends (parse_trends trends_res)], r3))))"

text \<open>
  Lines 69 to 82: the loop over the trends; \<open>reports\<close> is the list built so far. One
  round is \<open>research_one\<close>: a search, then a call of the model.
\<close>

definition research_one :: "('w, 'm) deps \<Rightarrow> str \<Rightarrow> 'w run \<Rightarrow> error + (str \<times> 'w run)" where
  "research_one d trend r =
     (case results d (context_query trend) 3 r of
        Inl e \<Rightarrow> Inl e
      | Inr (found, r1) \<Rightarrow>
          (case ainvoke d (context_prompt (isprintable d) trend found) r1 of
             Inl e \<Rightarrow> Inl e
           | Inr (context_res, r2) \<Rightarrow> Inr (strip context_res, r2)))"

fun research_loop ::
  "('w, 'm) deps \<Rightarrow> str list \<Rightarrow> str list \<Rightarrow> 'w run \<Rightarrow> error + (str list \<times> 'w run)" where
  "research_loop d [] reports r = Inr (reports, r)"
| "research_loop d (trend # rest) reports r =
     (case research_one d trend r of
        Inl e \<Rightarrow> Inl e
      | Inr (report, r') \<Rightarrow> research_loop d rest (reports @ [report]) r')"

text \<open>Lines 67 to 84.\<close>

definition research_trends_context :: "('w, 'm) node" where
  "research_trends_context d state r =
     (case research_loop d (trends state) [] r of
        Inl e \<Rightarrow> Inl e
      | Inr (reports, r') \<Rightarrow> Inr ([W_context_reports reports], r'))"

text \<open>Lines 86 to 98.\<close>

definition synthesize_report :: "('w, 'm) node" where
  "synthesize_report d state r =
     (case ainvoke d
             (final_prompt (join (lit ''\<newline>\<newline>'') (context_reports state))) r of
        Inl e \<Rightarrow> Inl e
      | Inr (final_res, r') \<Rightarrow> Inr ([W_final_report (strip final_res)], r'))"

section \<open>The graph and the handler\<close>

text \<open>
  Lines 102 to 113 build the graph as data: named nodes, an entry point, and edges.
  \<^verbatim>\<open>END\<close> is the name LangGraph gives the exit.
\<close>

record ('w, 'm) state_graph =
  nodes :: "(string \<times> ('w, 'm) node) list"
  entry_point :: string
  edges :: "(string \<times> string) list"

definition END :: string where
  "END = ''__end__''"

definition workflow :: "('w, 'm) state_graph" where
  "workflow =
     \<lparr>nodes = [(''get_trends'', analyze_and_get_trends),
               (''research_context'', research_trends_context),
               (''synthesize'', synthesize_report)],
      entry_point = ''get_trends'',
      edges = [(''get_trends'', ''research_context''),
               (''research_context'', ''synthesize''),
               (''synthesize'', END)]\<rparr>"

text \<open>
  Running a compiled graph whose nodes have one outgoing edge each, as LangGraph does it:
  the node is run on the state, its writes are stored, and the edge is followed, until
  the exit is reached; a run of more steps than the recursion limit is an error.
\<close>

definition enter :: "string \<Rightarrow> 'w run \<Rightarrow> 'w run" where
  "enter node r = r\<lparr>trace := trace r @ [NodeEntered node]\<rparr>"

fun run_graph ::
  "('w, 'm) deps \<Rightarrow> ('w, 'm) state_graph \<Rightarrow> nat \<Rightarrow> string \<Rightarrow> AgentState \<Rightarrow> 'w run \<Rightarrow>
     error + (AgentState \<times> 'w run)" where
  "run_graph d g limit node state r =
     (if node = END then Inr (state, r)
      else case limit of
        0 \<Rightarrow> Inl GraphRecursionError
      | Suc k \<Rightarrow>
          (case map_of (nodes g) node of
             None \<Rightarrow> Inl (UnknownNode node)
           | Some f \<Rightarrow>
               (case f d state (enter node r) of
                  Inl e \<Rightarrow> Inl e
                | Inr (ws, r') \<Rightarrow>
                    (case map_of (edges g) node of
                       None \<Rightarrow> Inr (apply_writes state ws, r')
                     | Some nxt \<Rightarrow> run_graph d g k nxt (apply_writes state ws) r'))))"

declare run_graph.simps [simp del]

definition recursion_limit :: nat where
  "recursion_limit = 25"

text \<open>\<^verbatim>\<open>app.ainvoke(initial_state)\<close> for \<^verbatim>\<open>app = workflow.compile()\<close>.\<close>

definition app_ainvoke ::
  "('w, 'm) deps \<Rightarrow> AgentState \<Rightarrow> 'w run \<Rightarrow> error + (AgentState \<times> 'w run)" where
  "app_ainvoke d state r =
     run_graph d workflow recursion_limit
       (entry_point (workflow :: ('w, 'm) state_graph)) state r"

datatype agent_message = AgentMessage str

text \<open>Line 149.\<close>

definition initial_state :: "str \<Rightarrow> AgentState" where
  "initial_state user_query =
     \<lparr>query = user_query, trends = [], context_reports = [], final_report = []\<rparr>"

text \<open>Lines 144 to 152: the handler; its value is the list of the messages it yields.\<close>

definition langgraph_trends_agent ::
  "('w, 'm) deps \<Rightarrow> 'm \<Rightarrow> 'w run \<Rightarrow> error + (agent_message list \<times> 'w run)" where
  "langgraph_trends_agent d input r =
     (let user_query = get_message_text d input
      in case app_ainvoke d (initial_state user_query) r of
           Inl e \<Rightarrow> Inl e
         | Inr (result, r') \<Rightarrow> Inr ([AgentMessage (final_report result)], r'))"

section \<open>Reading a trace\<close>

text \<open>The searches a run made (query and number of results asked for), in order.\<close>

fun search_of :: "event \<Rightarrow> (str \<times> nat) list" where
  "search_of (SearchCall q n found) = [(q, n)]"
| "search_of (LLMCall p c) = []"
| "search_of (NodeEntered node) = []"

definition searches :: "event list \<Rightarrow> (str \<times> nat) list" where
  "searches es = concat (map search_of es)"

text \<open>The nodes a run entered, in order.\<close>

fun node_of :: "event \<Rightarrow> string list" where
  "node_of (NodeEntered node) = [node]"
| "node_of (LLMCall p c) = []"
| "node_of (SearchCall q n found) = []"

definition nodes_entered :: "event list \<Rightarrow> string list" where
  "nodes_entered es = concat (map node_of es)"

section \<open>A scripted pair of services\<close>

text \<open>
  Services to run the pipeline on: the world counts the calls of the model, which
  answers with the next text of a script (and with \<open>fallback\<close> once the script is
  used up); the search finds the same results \<open>found\<close> every time, cut to the number asked for.
  Every text used with them is ASCII, where \<^verbatim>\<open>str.lower\<close> is \<open>ascii_lower\<close> and
  \<^verbatim>\<open>repr\<close> never asks whether a code point is printable.
\<close>

definition demo_results :: "search_result list" where
  "demo_results =
     [[(lit ''snippet'', lit ''one''), (lit ''title'', lit ''T''), (lit ''link'', lit ''http://a/'')],
      [(lit ''title'', lit ''U''), (lit ''link'', lit ''http://b/'')]]"

definition scripted :: "str list \<Rightarrow> str \<Rightarrow> search_result list \<Rightarrow> (nat, str) deps" where
  "scripted script fallback found =
     \<lparr>llm_ainvoke = (\<lambda>w p. Some (if w < length script then script ! w else fallback, Suc w)),
      search_results = (\<lambda>w q n. Some (take n found, w)),
      str_lower = ascii_lower,
      isprintable = (\<lambda>c. False),
      get_message_text = (\<lambda>m. m)\<rparr>"

text \<open>The same results with another link in the first one.\<close>

definition demo_results_relinked :: "search_result list" where
  "demo_results_relinked =
     [[(lit ''snippet'', lit ''one''), (lit ''title'', lit ''T''), (lit ''link'', lit ''http://z/'')],
      [(lit ''title'', lit ''U''), (lit ''link'', lit ''http://b/'')]]"

text \<open>A state with two trends, as stage 2 may leave it.\<close>

definition two_trends :: AgentState where
  "two_trends = \<lparr>query = lit ''q'', trends = [lit ''alpha'', lit ''beta''], context_reports = [],
     final_report = []\<rparr>"

definition start :: "nat run" where
  "start = \<lparr>world = 0, trace = []\<rparr>"

text \<open>Services that never raise.\<close>

definition reliable :: "('w, 'm) deps \<Rightarrow> bool" where
  "reliable d \<longleftrightarrow>
     (\<forall>w p. llm_ainvoke d w p \<noteq> None) \<and> (\<forall>w q n. search_results d w q n \<noteq> None)"

section \<open>Facts about the string functions\<close>

lemma lstrip_head: "lstrip s \<noteq> [] \<Longrightarrow> \<not> isspace (hd (lstrip s))"
  unfolding lstrip_def by (rule hd_dropWhile)

lemma rstrip_last: "rstrip s \<noteq> [] \<Longrightarrow> \<not> isspace (last (rstrip s))"
  unfolding rstrip_def by (simp add: last_rev hd_dropWhile)

lemma rstrip_prefix: "s = rstrip s @ rev (takeWhile isspace (rev s))"
proof -
  have "rev (takeWhile isspace (rev s) @ dropWhile isspace (rev s)) = rev (rev s)"
    by (simp only: takeWhile_dropWhile_id)
  then show ?thesis
    by (simp only: rstrip_def rev_append rev_rev_ident)
qed

lemma rstrip_head: "rstrip s \<noteq> [] \<Longrightarrow> hd (rstrip s) = hd s"
  by (metis hd_append2 rstrip_prefix)

lemma strip_head: "strip s \<noteq> [] \<Longrightarrow> \<not> isspace (hd (strip s))"
proof -
  assume ne: "strip s \<noteq> []"
  then have "lstrip s \<noteq> []"
    by (auto simp: strip_def rstrip_def)
  then have "\<not> isspace (hd (lstrip s))"
    by (rule lstrip_head)
  moreover have "hd (strip s) = hd (lstrip s)"
    using ne unfolding strip_def by (rule rstrip_head)
  ultimately show ?thesis
    by simp
qed

lemma strip_last: "strip s \<noteq> [] \<Longrightarrow> \<not> isspace (last (strip s))"
  unfolding strip_def by (rule rstrip_last)

lemma lstrip_fixed: "s = [] \<or> \<not> isspace (hd s) \<Longrightarrow> lstrip s = s"
  by (cases s) (auto simp: lstrip_def)

lemma rstrip_fixed: "s = [] \<or> \<not> isspace (last s) \<Longrightarrow> rstrip s = s"
  by (cases "rev s") (auto simp: rstrip_def last_rev [symmetric] simp del: last_rev)

lemma strip_fixed:
  "s = [] \<or> (\<not> isspace (hd s) \<and> \<not> isspace (last s)) \<Longrightarrow> strip s = s"
  by (auto simp: strip_def lstrip_fixed rstrip_fixed)

lemma strip_strip: "strip (strip s) = strip s"
  by (rule strip_fixed) (use strip_head strip_last in blast)

lemma set_strip: "set (strip s) \<subseteq> set s"
proof -
  have "set (rstrip t) \<subseteq> set t" for t
    using set_dropWhileD [of _ isspace "rev t"] by (auto simp: rstrip_def)
  moreover have "set (lstrip s) \<subseteq> set s"
    by (auto simp: lstrip_def dest: set_dropWhileD)
  ultimately show ?thesis
    unfolding strip_def by blast
qed

lemma split_acc_pieces:
  "p \<in> set (split_acc sep cur s) \<Longrightarrow> sep \<notin> set cur \<Longrightarrow> sep \<notin> set p"
proof (induction s arbitrary: cur)
  case Nil
  then show ?case by simp
next
  case (Cons c cs)
  show ?case
  proof (cases "c = sep")
    case True
    with Cons.prems have "p = cur \<or> p \<in> set (split_acc sep [] cs)"
      by simp
    then show ?thesis
      using Cons.IH [of "[]"] Cons.prems(2) by auto
  next
    case False
    with Cons.prems have "p \<in> set (split_acc sep (cur @ [c]) cs)"
      by simp
    moreover have "sep \<notin> set (cur @ [c])"
      using False Cons.prems(2) by auto
    ultimately show ?thesis
      by (rule Cons.IH)
  qed
qed

lemma split_pieces: "p \<in> set (split sep s) \<Longrightarrow> sep \<notin> set p"
  unfolding split_def by (erule split_acc_pieces) simp

lemma split_acc_no_sep: "sep \<notin> set s \<Longrightarrow> split_acc sep cur s = [cur @ s]"
  by (induction s arbitrary: cur) auto

lemma split_no_sep: "sep \<notin> set s \<Longrightarrow> split sep s = [s]"
  by (simp add: split_def split_acc_no_sep)

section \<open>Facts about the services and the nodes\<close>

lemma ainvoke_Inr:
  "ainvoke d p r = Inr (c, r') \<Longrightarrow>
     \<exists>w. llm_ainvoke d (world r) p = Some (c, w) \<and> r' = \<lparr>world = w, trace = trace r @ [LLMCall p c]\<rparr>"
  by (auto simp: ainvoke_def split: option.splits)

lemma ainvoke_trace: "ainvoke d p r = Inr (c, r') \<Longrightarrow> trace r' = trace r @ [LLMCall p c]"
  by (auto dest: ainvoke_Inr)

lemma ainvoke_reliable: "reliable d \<Longrightarrow> \<exists>c r'. ainvoke d p r = Inr (c, r')"
proof -
  assume "reliable d"
  then obtain c w where "llm_ainvoke d (world r) p = Some (c, w)"
    unfolding reliable_def by (metis option.exhaust surj_pair)
  then show ?thesis
    by (simp add: ainvoke_def)
qed

lemma results_Inr:
  "results d q n r = Inr (f, r') \<Longrightarrow>
     \<exists>w. search_results d (world r) q n = Some (f, w) \<and>
         r' = \<lparr>world = w, trace = trace r @ [SearchCall q n f]\<rparr>"
  by (auto simp: results_def split: option.splits)

lemma results_trace: "results d q n r = Inr (f, r') \<Longrightarrow> trace r' = trace r @ [SearchCall q n f]"
  by (auto dest: results_Inr)

lemma results_reliable: "reliable d \<Longrightarrow> \<exists>f r'. results d q n r = Inr (f, r')"
proof -
  assume "reliable d"
  then obtain f w where "search_results d (world r) q n = Some (f, w)"
    unfolding reliable_def by (metis option.exhaust surj_pair)
  then show ?thesis
    by (simp add: results_def)
qed

lemma analyze_Inr:
  assumes "analyze_and_get_trends d st r = Inr (ws, r')"
  shows "\<exists>c1 f c2.
           trace r' = trace r @
             [LLMCall (country_prompt (query st)) c1,
              SearchCall (search_query (normalize_country (str_lower d) c1)) 5 f,
              LLMCall (extract_prompt (build_url (normalize_country (str_lower d) c1))
                         (results_text f)) c2] \<and>
           ws = [W_trends (parse_trends c2)]"
proof -
  from assms obtain c1 r1 where
    1: "ainvoke d (country_prompt (query st)) r = Inr (c1, r1)"
    by (auto simp: analyze_and_get_trends_def split: sum.splits)
  let ?country = "normalize_country (str_lower d) c1"
  from assms 1 obtain f r2 where
    2: "results d (search_query ?country) 5 r1 = Inr (f, r2)"
    by (auto simp: analyze_and_get_trends_def Let_def split: sum.splits)
  from assms 1 2 obtain c2 where
    3: "ainvoke d (extract_prompt (build_url ?country) (results_text f)) r2 = Inr (c2, r')"
    and ws: "ws = [W_trends (parse_trends c2)]"
    by (auto simp: analyze_and_get_trends_def Let_def split: sum.splits)
  have "trace r' = trace r @
      [LLMCall (country_prompt (query st)) c1, SearchCall (search_query ?country) 5 f,
       LLMCall (extract_prompt (build_url ?country) (results_text f)) c2]"
    using ainvoke_trace [OF 1] results_trace [OF 2] ainvoke_trace [OF 3] by simp
  with ws show ?thesis
    by blast
qed

lemma analyze_reliable:
  assumes "reliable d"
  shows "\<exists>ws r'. analyze_and_get_trends d st r = Inr (ws, r')"
proof -
  obtain c1 r1 where 1: "ainvoke d (country_prompt (query st)) r = Inr (c1, r1)"
    using ainvoke_reliable [OF assms] by blast
  let ?country = "normalize_country (str_lower d) c1"
  obtain f r2 where 2: "results d (search_query ?country) 5 r1 = Inr (f, r2)"
    using results_reliable [OF assms] by blast
  obtain c2 r3 where
    3: "ainvoke d (extract_prompt (build_url ?country) (results_text f)) r2 = Inr (c2, r3)"
    using ainvoke_reliable [OF assms] by blast
  show ?thesis
    by (simp add: analyze_and_get_trends_def Let_def 1 2 3)
qed

lemma research_one_Inr:
  assumes "research_one d t r = Inr (rep, r')"
  shows "\<exists>f c. trace r' = trace r @
            [SearchCall (context_query t) 3 f, LLMCall (context_prompt (isprintable d) t f) c] \<and>
          rep = strip c"
proof -
  from assms obtain f r1 where 1: "results d (context_query t) 3 r = Inr (f, r1)"
    by (auto simp: research_one_def split: sum.splits)
  from assms 1 obtain c where
    2: "ainvoke d (context_prompt (isprintable d) t f) r1 = Inr (c, r')" and rep: "rep = strip c"
    by (auto simp: research_one_def split: sum.splits)
  show ?thesis
    using results_trace [OF 1] ainvoke_trace [OF 2] rep by auto
qed

lemma research_one_reliable:
  assumes "reliable d"
  shows "\<exists>rep r'. research_one d t r = Inr (rep, r')"
proof -
  obtain f r1 where 1: "results d (context_query t) 3 r = Inr (f, r1)"
    using results_reliable [OF assms] by blast
  obtain c r2 where 2: "ainvoke d (context_prompt (isprintable d) t f) r1 = Inr (c, r2)"
    using ainvoke_reliable [OF assms] by blast
  show ?thesis
    by (simp add: research_one_def 1 2)
qed

lemma research_loop_reliable:
  "reliable d \<Longrightarrow> \<exists>reports r'. research_loop d ts acc r = Inr (reports, r')"
proof (induction ts arbitrary: acc r)
  case Nil
  then show ?case by simp
next
  case (Cons t ts)
  obtain rep r1 where "research_one d t r = Inr (rep, r1)"
    using research_one_reliable [OF Cons.prems] by blast
  then show ?case
    using Cons.IH [OF Cons.prems, of "acc @ [rep]" r1] by simp
qed

text \<open>The runs between the rounds of the loop.\<close>

lemma research_loop_Inr:
  "research_loop d ts acc r = Inr (reports, r') \<Longrightarrow>
     \<exists>new rs. reports = acc @ new \<and> length new = length ts \<and> length rs = Suc (length ts) \<and>
        rs ! 0 = r \<and> rs ! length ts = r' \<and>
        (\<forall>i < length ts. research_one d (ts ! i) (rs ! i) = Inr (new ! i, rs ! Suc i))"
proof (induction ts arbitrary: acc r)
  case Nil
  then show ?case
    by (auto intro: exI [of _ "[r]"])
next
  case (Cons t ts)
  from Cons.prems obtain rep r1 where
    one: "research_one d t r = Inr (rep, r1)" and
    rest: "research_loop d ts (acc @ [rep]) r1 = Inr (reports, r')"
    by (auto split: sum.splits)
  from Cons.IH [OF rest] obtain new rs where
    new: "reports = (acc @ [rep]) @ new" "length new = length ts" and
    rs: "length rs = Suc (length ts)" "rs ! 0 = r1" "rs ! length ts = r'" and
    steps: "\<forall>i < length ts. research_one d (ts ! i) (rs ! i) = Inr (new ! i, rs ! Suc i)"
    by blast
  have "\<forall>i < length (t # ts).
          research_one d ((t # ts) ! i) ((r # rs) ! i) = Inr ((rep # new) ! i, (r # rs) ! Suc i)"
  proof (intro allI impI)
    fix i assume "i < length (t # ts)"
    then show "research_one d ((t # ts) ! i) ((r # rs) ! i) = Inr ((rep # new) ! i, (r # rs) ! Suc i)"
      using one steps rs(2) by (cases i) auto
  qed
  moreover have "reports = acc @ (rep # new)" "length (rep # new) = length (t # ts)"
    "length (r # rs) = Suc (length (t # ts))" "(r # rs) ! 0 = r" "(r # rs) ! length (t # ts) = r'"
    using new rs by auto
  ultimately show ?case
    by blast
qed

lemma parse_trends_entry:
  assumes "t \<in> set (parse_trends c)"
  shows "t \<noteq> [] \<and> strip t = t \<and> comma \<notin> set t"
proof -
  from assms have "t \<in> set (map strip (filter (\<lambda>t. strip t \<noteq> []) (split comma c)))"
    unfolding parse_trends_def by (rule in_set_takeD)
  then obtain p where p: "p \<in> set (split comma c)" "strip p \<noteq> []" "t = strip p"
    by auto
  have "comma \<notin> set p"
    using p(1) by (rule split_pieces)
  then have "comma \<notin> set t"
    using set_strip [of p] p(3) by auto
  with p(2,3) show ?thesis
    by (simp add: strip_strip)
qed

lemma parse_demo: "parse_trends (lit '' a, b ,, c ,d,e,f,g'') = [lit ''a'', lit ''b'', lit ''c'', lit ''d'', lit ''e'']"
  by (simp add: parse_trends_def split_def lit_def comma_def strip_def lstrip_def rstrip_def isspace_def)

lemma scripted_reliable: "reliable (scripted script fallback found)"
  by (simp add: reliable_def scripted_def)

lemma scripted_ainvoke:
  "ainvoke (scripted script fallback found) p r =
     Inr (if world r < length script then script ! world r else fallback,
          \<lparr>world = Suc (world r),
           trace = trace r @ [LLMCall p (if world r < length script then script ! world r else fallback)]\<rparr>)"
  by (simp add: ainvoke_def scripted_def)

lemma scripted_results:
  "results (scripted script fallback found) q n r =
     Inr (take n found, \<lparr>world = world r, trace = trace r @ [SearchCall q n (take n found)]\<rparr>)"
  by (simp add: results_def scripted_def)

lemma run_graph_END: "run_graph d g k END st r = Inr (st, r)"
  by (simp add: run_graph.simps)

lemma run_graph_step:
  assumes "node \<noteq> END" "map_of (nodes g) node = Some f" "map_of (edges g) node = Some nxt"
  shows "run_graph d g (Suc k) node st r =
           (case f d st (enter node r) of
              Inl e \<Rightarrow> Inl e
            | Inr (ws, r') \<Rightarrow> run_graph d g k nxt (apply_writes st ws) r')"
  using assms by (subst run_graph.simps) (simp split: sum.splits)

lemma app_ainvoke_unfold:
  "app_ainvoke d st r =
     (case analyze_and_get_trends d st (enter ''get_trends'' r) of
        Inl e \<Rightarrow> Inl e
      | Inr (ws1, r1) \<Rightarrow>
          (case research_trends_context d (apply_writes st ws1) (enter ''research_context'' r1) of
             Inl e \<Rightarrow> Inl e
           | Inr (ws2, r2) \<Rightarrow>
               (case synthesize_report d (apply_writes (apply_writes st ws1) ws2)
                       (enter ''synthesize'' r2) of
                  Inl e \<Rightarrow> Inl e
                | Inr (ws3, r3) \<Rightarrow>
                    Inr (apply_writes (apply_writes (apply_writes st ws1) ws2) ws3, r3))))"
proof -
  have lim: "recursion_limit = Suc (Suc (Suc 22))"
    by (simp add: recursion_limit_def)
  have 1: "run_graph d workflow (Suc k) ''get_trends'' s x =
      (case analyze_and_get_trends d s (enter ''get_trends'' x) of Inl e \<Rightarrow> Inl e
       | Inr (ws, r') \<Rightarrow> run_graph d workflow k ''research_context'' (apply_writes s ws) r')"
    for k s and x :: "'a run"
    by (rule run_graph_step) (simp_all add: workflow_def END_def)
  have 2: "run_graph d workflow (Suc k) ''research_context'' s x =
      (case research_trends_context d s (enter ''research_context'' x) of Inl e \<Rightarrow> Inl e
       | Inr (ws, r') \<Rightarrow> run_graph d workflow k ''synthesize'' (apply_writes s ws) r')"
    for k s and x :: "'a run"
    by (rule run_graph_step) (simp_all add: workflow_def END_def)
  have 3: "run_graph d workflow (Suc k) ''synthesize'' s x =
      (case synthesize_report d s (enter ''synthesize'' x) of Inl e \<Rightarrow> Inl e
       | Inr (ws, r') \<Rightarrow> run_graph d workflow k END (apply_writes s ws) r')"
    for k s and x :: "'a run"
    by (rule run_graph_step) (simp_all add: workflow_def END_def)
  have entry: "entry_point (workflow :: ('a, 'b) state_graph) = ''get_trends''"
    by (simp add: workflow_def)
  show ?thesis
    unfolding app_ainvoke_def lim entry 1 2 3 run_graph_END
    by (simp split: sum.splits)
qed

section \<open>Facts about the graph, the traces and the scripted services\<close>

lemma research_Inr:
  assumes "research_trends_context d st r = Inr (ws, r')"
  shows "\<exists>reports. ws = [W_context_reports reports] \<and>
           research_loop d (trends st) [] r = Inr (reports, r')"
  using assms by (auto simp: research_trends_context_def split: sum.splits)

lemma research_reliable:
  assumes "reliable d"
  shows "\<exists>reports r'. research_trends_context d st r = Inr ([W_context_reports reports], r')"
proof -
  obtain reports r' where "research_loop d (trends st) [] r = Inr (reports, r')"
    using research_loop_reliable [OF assms] by blast
  then show ?thesis
    by (simp add: research_trends_context_def)
qed

lemma synthesize_Inr:
  assumes "synthesize_report d st r = Inr (ws, r')"
  shows "\<exists>c. ws = [W_final_report (strip c)] \<and>
           trace r' = trace r @
             [LLMCall (final_prompt (join (lit ''\<newline>\<newline>'') (context_reports st))) c]"
proof -
  from assms obtain c where
    1: "ainvoke d (final_prompt (join (lit ''\<newline>\<newline>'') (context_reports st))) r = Inr (c, r')"
    and ws: "ws = [W_final_report (strip c)]"
    by (auto simp: synthesize_report_def split: sum.splits)
  show ?thesis
    using ainvoke_trace [OF 1] ws by blast
qed

lemma synthesize_reliable:
  assumes "reliable d"
  shows "\<exists>c r'. synthesize_report d st r = Inr ([W_final_report (strip c)], r')"
proof -
  obtain c r' where
    "ainvoke d (final_prompt (join (lit ''\<newline>\<newline>'') (context_reports st))) r = Inr (c, r')"
    using ainvoke_reliable [OF assms] by blast
  then have "synthesize_report d st r = Inr ([W_final_report (strip c)], r')"
    by (simp add: synthesize_report_def)
  then show ?thesis
    by blast
qed

lemma app_ainvoke_Inr:
  assumes "app_ainvoke d st r = Inr (s, r')"
  shows "\<exists>ws1 r1 ws2 r2 ws3.
           analyze_and_get_trends d st (enter ''get_trends'' r) = Inr (ws1, r1) \<and>
           research_trends_context d (apply_writes st ws1) (enter ''research_context'' r1) =
             Inr (ws2, r2) \<and>
           synthesize_report d (apply_writes (apply_writes st ws1) ws2) (enter ''synthesize'' r2) =
             Inr (ws3, r') \<and>
           s = apply_writes (apply_writes (apply_writes st ws1) ws2) ws3"
proof (cases "analyze_and_get_trends d st (enter ''get_trends'' r)")
  case (Inl e)
  with assms show ?thesis
    by (simp add: app_ainvoke_unfold)
next
  case 1: (Inr a)
  obtain ws1 r1 where a: "a = (ws1, r1)"
    by (cases a)
  show ?thesis
  proof (cases "research_trends_context d (apply_writes st ws1) (enter ''research_context'' r1)")
    case (Inl e)
    with assms 1 a show ?thesis
      by (simp add: app_ainvoke_unfold)
  next
    case 2: (Inr b)
    obtain ws2 r2 where b: "b = (ws2, r2)"
      by (cases b)
    show ?thesis
    proof (cases "synthesize_report d (apply_writes (apply_writes st ws1) ws2)
                    (enter ''synthesize'' r2)")
      case (Inl e)
      with assms 1 a 2 b show ?thesis
        by (simp add: app_ainvoke_unfold)
    next
      case 3: (Inr c)
      obtain ws3 r3 where c: "c = (ws3, r3)"
        by (cases c)
      from assms 1 a 2 b 3 c
      have "r' = r3" "s = apply_writes (apply_writes (apply_writes st ws1) ws2) ws3"
        by (simp_all add: app_ainvoke_unfold)
      with 1 a 2 b 3 c show ?thesis
        by blast
    qed
  qed
qed

lemma app_ainvoke_reliable:
  assumes "reliable d"
  shows "\<exists>s r'. app_ainvoke d st r = Inr (s, r')"
proof -
  obtain ws1 r1 where 1: "analyze_and_get_trends d st (enter ''get_trends'' r) = Inr (ws1, r1)"
    using analyze_reliable [OF assms] by blast
  obtain reports r2 where
    2: "research_trends_context d (apply_writes st ws1) (enter ''research_context'' r1) =
          Inr ([W_context_reports reports], r2)"
    using research_reliable [OF assms] by blast
  obtain c r3 where
    3: "synthesize_report d (apply_writes (apply_writes st ws1) [W_context_reports reports])
          (enter ''synthesize'' r2) = Inr ([W_final_report (strip c)], r3)"
    using synthesize_reliable [OF assms] by blast
  show ?thesis
    by (simp add: app_ainvoke_unfold 1 2 3)
qed

lemma scripted_analyze_at:
  "world r = 0 \<Longrightarrow>
   analyze_and_get_trends (scripted [c1, c2] fallback found) st r =
     Inr ([W_trends (parse_trends c2)],
          \<lparr>world = 2,
           trace = trace r @
             [LLMCall (country_prompt (query st)) c1,
              SearchCall (search_query (normalize_country ascii_lower c1)) 5 (take 5 found),
              LLMCall (extract_prompt (build_url (normalize_country ascii_lower c1))
                         (results_text (take 5 found))) c2]\<rparr>)"
  by (simp add: analyze_and_get_trends_def scripted_ainvoke scripted_results Let_def)
    (simp add: scripted_def)

lemma research_loop_searches:
  "research_loop d ts acc r = Inr (reports, r') \<Longrightarrow>
     searches (trace r') = searches (trace r) @ map (\<lambda>t. (context_query t, 3)) ts"
proof (induction ts arbitrary: acc r)
  case Nil
  then show ?case by simp
next
  case (Cons t ts)
  from Cons.prems obtain rep r1 where
    one: "research_one d t r = Inr (rep, r1)" and
    rest: "research_loop d ts (acc @ [rep]) r1 = Inr (reports, r')"
    by (auto split: sum.splits)
  from research_one_Inr [OF one] have "searches (trace r1) = searches (trace r) @ [(context_query t, 3)]"
    by (auto simp: searches_def)
  with Cons.IH [OF rest] show ?case
    by simp
qed

lemma research_loop_nodes:
  "research_loop d ts acc r = Inr (reports, r') \<Longrightarrow>
     nodes_entered (trace r') = nodes_entered (trace r)"
proof (induction ts arbitrary: acc r)
  case Nil
  then show ?case by simp
next
  case (Cons t ts)
  from Cons.prems obtain rep r1 where
    one: "research_one d t r = Inr (rep, r1)" and
    rest: "research_loop d ts (acc @ [rep]) r1 = Inr (reports, r')"
    by (auto split: sum.splits)
  from research_one_Inr [OF one] have "nodes_entered (trace r1) = nodes_entered (trace r)"
    by (auto simp: nodes_entered_def)
  with Cons.IH [OF rest] show ?case
    by simp
qed

lemma scripted_research_one:
  "research_one (scripted script fallback found) t r =
     Inr (strip (if world r < length script then script ! world r else fallback),
          \<lparr>world = Suc (world r),
           trace = trace r @
             [SearchCall (context_query t) 3 (take 3 found),
              LLMCall (context_prompt (isprintable (scripted script fallback found)) t (take 3 found))
                (if world r < length script then script ! world r else fallback)]\<rparr>)"
  by (simp add: research_one_def scripted_ainvoke scripted_results)

lemma handler_unfold:
  "langgraph_trends_agent d input r =
     (case analyze_and_get_trends d (initial_state (get_message_text d input))
             (enter ''get_trends'' r) of
        Inl e \<Rightarrow> Inl e
      | Inr (ws1, r1) \<Rightarrow>
          (case research_trends_context d
                  (apply_writes (initial_state (get_message_text d input)) ws1)
                  (enter ''research_context'' r1) of
             Inl e \<Rightarrow> Inl e
           | Inr (ws2, r2) \<Rightarrow>
               (case synthesize_report d
                       (apply_writes
                          (apply_writes (initial_state (get_message_text d input)) ws1) ws2)
                       (enter ''synthesize'' r2) of
                  Inl e \<Rightarrow> Inl e
                | Inr (ws3, r3) \<Rightarrow>
                    Inr ([AgentMessage
                            (final_report
                               (apply_writes
                                  (apply_writes
                                     (apply_writes (initial_state (get_message_text d input)) ws1)
                                     ws2)
                                  ws3))],
                         r3))))"
  by (simp add: langgraph_trends_agent_def app_ainvoke_unfold Let_def split: sum.splits)

lemma handler_Inr:
  assumes "langgraph_trends_agent d input r = Inr (ms, r')"
  shows "\<exists>s. app_ainvoke d (initial_state (get_message_text d input)) r = Inr (s, r') \<and>
           ms = [AgentMessage (final_report s)]"
  using assms by (auto simp: langgraph_trends_agent_def Let_def split: sum.splits)

lemma enter_trace: "trace (enter n r) = trace r @ [NodeEntered n]"
  by (simp add: enter_def)

lemma app_ainvoke_trace:
  assumes "app_ainvoke d st r = Inr (s, r')"
  shows "nodes_entered (trace r') =
           nodes_entered (trace r) @ [''get_trends'', ''research_context'', ''synthesize''] \<and>
         (\<exists>p c. last (trace r') = LLMCall p c \<and> final_report s = strip c)"
proof -
  from app_ainvoke_Inr [OF assms] obtain ws1 r1 ws2 r2 ws3 where
    1: "analyze_and_get_trends d st (enter ''get_trends'' r) = Inr (ws1, r1)" and
    2: "research_trends_context d (apply_writes st ws1) (enter ''research_context'' r1) =
         Inr (ws2, r2)" and
    3: "synthesize_report d (apply_writes (apply_writes st ws1) ws2) (enter ''synthesize'' r2) =
         Inr (ws3, r')" and
    s: "s = apply_writes (apply_writes (apply_writes st ws1) ws2) ws3"
    by blast
  have n1: "nodes_entered (trace r1) = nodes_entered (trace r) @ [''get_trends'']"
    using analyze_Inr [OF 1] by (auto simp: nodes_entered_def enter_trace)
  from research_Inr [OF 2] obtain reports where
    "research_loop d (trends (apply_writes st ws1)) [] (enter ''research_context'' r1) =
       Inr (reports, r2)"
    by blast
  from research_loop_nodes [OF this]
  have n2: "nodes_entered (trace r2) = nodes_entered (trace r1) @ [''research_context'']"
    by (simp add: nodes_entered_def enter_trace)
  from synthesize_Inr [OF 3] obtain p c where
    ws3: "ws3 = [W_final_report (strip c)]" and
    tr: "trace r' = trace (enter ''synthesize'' r2) @ [LLMCall p c]"
    by blast
  have n3: "nodes_entered (trace r') = nodes_entered (trace r2) @ [''synthesize'']"
    unfolding tr by (simp add: nodes_entered_def enter_trace)
  have "final_report s = strip c"
    by (simp add: s ws3 apply_writes_def)
  moreover have "last (trace r') = LLMCall p c"
    by (simp add: tr)
  ultimately show ?thesis
    using n1 n2 n3 by auto
qed

lemma parse_ab: "parse_trends (lit ''a, b'') = [lit ''a'', lit ''b'']"
  by (simp add: parse_trends_def split_def lit_def comma_def strip_def lstrip_def rstrip_def
      isspace_def)

lemma strip_ok: "strip (lit '' ok '') = lit ''ok''"
  by (simp add: strip_def lstrip_def rstrip_def isspace_def lit_def)

lemma scripted_handler:
  "\<exists>r'. langgraph_trends_agent (scripted [c1, lit ''a, b''] (lit '' ok '') found) q start =
          Inr ([AgentMessage (lit ''ok'')], r')"
  by (simp add: handler_unfold scripted_analyze_at enter_def start_def parse_ab apply_writes_def
      research_trends_context_def scripted_research_one synthesize_report_def scripted_ainvoke
      strip_ok initial_state_def)

lemma parse_trends_single:
  assumes "comma \<notin> set c" and "strip c \<noteq> []"
  shows "parse_trends c = [strip c]"
  using assms by (simp add: parse_trends_def split_no_sep)

lemma research_single:
  assumes "research_trends_context d st r = Inr (ws, r')" and "trends st = [t]"
  shows "\<exists>rep. ws = [W_context_reports [rep]] \<and> research_one d t r = Inr (rep, r')"
  using assms by (auto simp: research_trends_context_def split: sum.splits)

lemma parse_blank: "parse_trends (lit '' , ,'') = []"
  by (simp add: parse_trends_def split_def lit_def comma_def strip_def lstrip_def rstrip_def
      isspace_def)

section \<open>The claims\<close>

text \<open>
  C1. Whatever the model replies in stage 2, the trend list read from the reply (split on
  commas, each piece trimmed, the pieces that are empty after trimming dropped, the first
  five kept) has at most five entries, and every entry is non-empty and stays non-empty
  when trimmed. The list is what \<^verbatim>\<open>analyze_and_get_trends\<close> stores: when the node
  returns, its one write is the list read from the reply of its last call of the model.
\<close>

theorem trends_at_most_five_nonempty:
  "length (parse_trends reply) \<le> 5 \<and>
   (\<forall>t \<in> set (parse_trends reply). t \<noteq> [] \<and> strip t \<noteq> []) \<and>
   (analyze_and_get_trends d st r = Inr (ws, r') \<longrightarrow>
      (\<exists>p c. last (trace r') = LLMCall p c \<and> ws = [W_trends (parse_trends c)]))"
proof (intro conjI ballI impI)
  show "length (parse_trends reply) \<le> 5"
    by (simp add: parse_trends_def)
next
  fix t assume "t \<in> set (parse_trends reply)"
  then have "t \<noteq> [] \<and> strip t = t"
    using parse_trends_entry by blast
  then show "t \<noteq> []" and "strip t \<noteq> []"
    by simp_all
next
  assume "analyze_and_get_trends d st r = Inr (ws, r')"
  from analyze_Inr [OF this] show "\<exists>p c. last (trace r') = LLMCall p c \<and> ws = [W_trends (parse_trends c)]"
    by auto
qed

theorem trends_at_most_five_nonempty_witness:
  "length (parse_trends (lit '' a, b ,, c ,d,e,f,g'')) \<le> 5 \<and>
   lit ''a'' \<in> set (parse_trends (lit '' a, b ,, c ,d,e,f,g'')) \<and>
   strip (lit ''a'') \<noteq> [] \<and>
   (\<exists>p c r'. analyze_and_get_trends
                (scripted [lit ''Japan'', lit '' a, b ,, c ,d,e,f,g''] (lit ''ok'') demo_results)
                (initial_state (lit ''What is trending in Japan?'')) start =
                Inr ([W_trends (parse_trends c)], r') \<and>
              last (trace r') = LLMCall p c)"
proof -
  let ?reply = "lit '' a, b ,, c ,d,e,f,g''"
  let ?d = "scripted [lit ''Japan'', ?reply] (lit ''ok'') demo_results"
  let ?st = "initial_state (lit ''What is trending in Japan?'')"
  have a: "lit ''a'' \<in> set (parse_trends ?reply)"
    by (simp add: parse_demo)
  obtain ws r' where run: "analyze_and_get_trends ?d ?st start = Inr (ws, r')"
    using analyze_reliable [OF scripted_reliable] by blast
  note inst = trends_at_most_five_nonempty [of ?reply ?d ?st start ws r']
  have 1: "length (parse_trends ?reply) \<le> 5"
    using inst by (rule conjunct1)
  have 2: "strip (lit ''a'') \<noteq> []"
    using inst a by blast
  have 3: "\<exists>p c. last (trace r') = LLMCall p c \<and> ws = [W_trends (parse_trends c)]"
    using inst run by blast
  then have "\<exists>p c r'. analyze_and_get_trends ?d ?st start = Inr ([W_trends (parse_trends c)], r') \<and>
      last (trace r') = LLMCall p c"
    using run by blast
  with 1 a 2 show ?thesis
    by (intro conjI)
qed

text \<open>
  C2. Stage 3 returns one report per trend, in the order of the trends. When the
  services answer, \<^verbatim>\<open>research_trends_context\<close> returns; and whenever it returns, the
  list it stores is as long as the trend list, and there are runs \<open>rs\<close>, the first
  the run the node started in and the last the run it ended in, such that report \<open>i\<close> is
  what the round for trend \<open>i\<close> (its search, then its call of the model) returned when
  started in run \<open>i\<close>, ending in run \<open>i + 1\<close>.
\<close>

theorem context_reports_aligned:
  "(reliable d \<longrightarrow>
      (\<exists>reports r'. research_trends_context d st r = Inr ([W_context_reports reports], r'))) \<and>
   (research_trends_context d st r = Inr (ws, r') \<longrightarrow>
      (\<exists>reports rs.
         ws = [W_context_reports reports] \<and> context_reports (apply_writes st ws) = reports \<and>
         length reports = length (trends st) \<and>
         length rs = Suc (length (trends st)) \<and> rs ! 0 = r \<and> rs ! length (trends st) = r' \<and>
         (\<forall>i < length (trends st).
            research_one d (trends st ! i) (rs ! i) = Inr (reports ! i, rs ! Suc i))))"
proof (intro conjI impI)
  assume "reliable d"
  then show "\<exists>reports r'. research_trends_context d st r = Inr ([W_context_reports reports], r')"
    by (rule research_reliable)
next
  assume "research_trends_context d st r = Inr (ws, r')"
  from research_Inr [OF this] obtain reports where
    ws: "ws = [W_context_reports reports]" and
    loop: "research_loop d (trends st) [] r = Inr (reports, r')"
    by blast
  from research_loop_Inr [OF loop] obtain rs where
    "length reports = length (trends st)" "length rs = Suc (length (trends st))"
    "rs ! 0 = r" "rs ! length (trends st) = r'"
    "\<forall>i < length (trends st).
       research_one d (trends st ! i) (rs ! i) = Inr (reports ! i, rs ! Suc i)"
    by auto
  moreover have "context_reports (apply_writes st ws) = reports"
    by (simp add: ws apply_writes_def)
  ultimately show "\<exists>reports rs.
         ws = [W_context_reports reports] \<and> context_reports (apply_writes st ws) = reports \<and>
         length reports = length (trends st) \<and>
         length rs = Suc (length (trends st)) \<and> rs ! 0 = r \<and> rs ! length (trends st) = r' \<and>
         (\<forall>i < length (trends st).
            research_one d (trends st ! i) (rs ! i) = Inr (reports ! i, rs ! Suc i))"
    using ws by blast
qed

theorem context_reports_aligned_witness:
  "\<exists>reports r1 r'.
     research_trends_context (scripted [] (lit '' why '') demo_results) two_trends start =
       Inr ([W_context_reports reports], r') \<and>
     length reports = 2 \<and>
     research_one (scripted [] (lit '' why '') demo_results) (lit ''alpha'') start =
       Inr (reports ! 0, r1) \<and>
     research_one (scripted [] (lit '' why '') demo_results) (lit ''beta'') r1 =
       Inr (reports ! 1, r')"
proof -
  let ?d = "scripted [] (lit '' why '') demo_results"
  note inst = context_reports_aligned [of ?d two_trends start]
  from inst scripted_reliable obtain reports r' where
    run: "research_trends_context ?d two_trends start = Inr ([W_context_reports reports], r')"
    by blast
  have len: "length (trends two_trends) = 2"
    and t0: "trends two_trends ! 0 = lit ''alpha''" and t1: "trends two_trends ! 1 = lit ''beta''"
    by (simp_all add: two_trends_def)
  from inst [of "[W_context_reports reports]" r'] run obtain rs where
    rs: "length reports = length (trends two_trends)" "rs ! 0 = start"
      "rs ! length (trends two_trends) = r'" and
    steps: "\<forall>i < length (trends two_trends).
       research_one ?d (trends two_trends ! i) (rs ! i) = Inr (reports ! i, rs ! Suc i)"
    by auto
  have "research_one ?d (lit ''alpha'') start = Inr (reports ! 0, rs ! 1)"
    using steps [rule_format, of 0] len t0 rs(2) by simp
  moreover have "research_one ?d (lit ''beta'') (rs ! 1) = Inr (reports ! 1, r')"
    using steps [rule_format, of 1] len t1 rs(3) by (simp add: numeral_2_eq_2)
  moreover have "length reports = 2"
    using rs(1) len by simp
  ultimately show ?thesis
    using run by blast
qed

text \<open>
  C3. The handler starts from a fresh state (the query read from the message, no trends,
  no reports, an empty final report) and is the three nodes run one after the other,
  \<^verbatim>\<open>get_trends\<close>, \<^verbatim>\<open>research_context\<close>, \<^verbatim>\<open>synthesize\<close>, each on the state the one
  before left; an error of a node ends the run with that error. Whenever the handler
  returns, these three nodes were entered, in this order and no other, and it yields
  exactly one message, whose text is the final report: the trimmed reply of the last call
  of the model. When the services answer, the handler returns.
\<close>

theorem handler_runs_pipeline_once:
  "initial_state (get_message_text d input) =
     \<lparr>query = get_message_text d input, trends = [], context_reports = [], final_report = []\<rparr> \<and>
   langgraph_trends_agent d input r =
     (case analyze_and_get_trends d (initial_state (get_message_text d input))
             (enter ''get_trends'' r) of
        Inl e \<Rightarrow> Inl e
      | Inr (ws1, r1) \<Rightarrow>
          (case research_trends_context d
                  (apply_writes (initial_state (get_message_text d input)) ws1)
                  (enter ''research_context'' r1) of
             Inl e \<Rightarrow> Inl e
           | Inr (ws2, r2) \<Rightarrow>
               (case synthesize_report d
                       (apply_writes
                          (apply_writes (initial_state (get_message_text d input)) ws1) ws2)
                       (enter ''synthesize'' r2) of
                  Inl e \<Rightarrow> Inl e
                | Inr (ws3, r3) \<Rightarrow>
                    Inr ([AgentMessage
                            (final_report
                               (apply_writes
                                  (apply_writes
                                     (apply_writes (initial_state (get_message_text d input)) ws1)
                                     ws2)
                                  ws3))],
                         r3)))) \<and>
   (langgraph_trends_agent d input r = Inr (ms, r') \<longrightarrow>
      nodes_entered (trace r') =
        nodes_entered (trace r) @ [''get_trends'', ''research_context'', ''synthesize''] \<and>
      (\<exists>p c. last (trace r') = LLMCall p c \<and> ms = [AgentMessage (strip c)])) \<and>
   (reliable d \<longrightarrow> (\<exists>m r'. langgraph_trends_agent d input r = Inr ([m], r')))"
proof (intro conjI impI)
  show "initial_state (get_message_text d input) =
     \<lparr>query = get_message_text d input, trends = [], context_reports = [], final_report = []\<rparr>"
    by (simp add: initial_state_def)
next
  show "langgraph_trends_agent d input r =
     (case analyze_and_get_trends d (initial_state (get_message_text d input))
             (enter ''get_trends'' r) of
        Inl e \<Rightarrow> Inl e
      | Inr (ws1, r1) \<Rightarrow>
          (case research_trends_context d
                  (apply_writes (initial_state (get_message_text d input)) ws1)
                  (enter ''research_context'' r1) of
             Inl e \<Rightarrow> Inl e
           | Inr (ws2, r2) \<Rightarrow>
               (case synthesize_report d
                       (apply_writes
                          (apply_writes (initial_state (get_message_text d input)) ws1) ws2)
                       (enter ''synthesize'' r2) of
                  Inl e \<Rightarrow> Inl e
                | Inr (ws3, r3) \<Rightarrow>
                    Inr ([AgentMessage
                            (final_report
                               (apply_writes
                                  (apply_writes
                                     (apply_writes (initial_state (get_message_text d input)) ws1)
                                     ws2)
                                  ws3))],
                         r3))))"
    by (rule handler_unfold)
next
  assume "langgraph_trends_agent d input r = Inr (ms, r')"
  from handler_Inr [OF this] obtain s where
    run: "app_ainvoke d (initial_state (get_message_text d input)) r = Inr (s, r')" and
    ms: "ms = [AgentMessage (final_report s)]"
    by blast
  from app_ainvoke_trace [OF run] ms
  show "nodes_entered (trace r') =
        nodes_entered (trace r) @ [''get_trends'', ''research_context'', ''synthesize'']"
    and "\<exists>p c. last (trace r') = LLMCall p c \<and> ms = [AgentMessage (strip c)]"
    by auto
next
  assume "reliable d"
  from app_ainvoke_reliable [OF this] obtain s r' where
    "app_ainvoke d (initial_state (get_message_text d input)) r = Inr (s, r')"
    by blast
  then have "langgraph_trends_agent d input r = Inr ([AgentMessage (final_report s)], r')"
    by (simp add: langgraph_trends_agent_def)
  then show "\<exists>m r'. langgraph_trends_agent d input r = Inr ([m], r')"
    by blast
qed

theorem handler_runs_pipeline_once_witness:
  "\<exists>r'. langgraph_trends_agent (scripted [lit ''Japan'', lit ''a, b''] (lit '' ok '') demo_results)
            (lit ''What is trending in Japan?'') start = Inr ([AgentMessage (lit ''ok'')], r') \<and>
         nodes_entered (trace r') = [''get_trends'', ''research_context'', ''synthesize'']"
proof -
  let ?d = "scripted [lit ''Japan'', lit ''a, b''] (lit '' ok '') demo_results"
  let ?q = "lit ''What is trending in Japan?''"
  from scripted_handler obtain r' where
    run: "langgraph_trends_agent ?d ?q start = Inr ([AgentMessage (lit ''ok'')], r')"
    by blast
  from handler_runs_pipeline_once [of ?d ?q start "[AgentMessage (lit ''ok'')]" r'] run
  have "nodes_entered (trace r') =
        nodes_entered (trace start) @ [''get_trends'', ''research_context'', ''synthesize'']"
    by blast
  then have "nodes_entered (trace r') = [''get_trends'', ''research_context'', ''synthesize'']"
    by (simp add: start_def nodes_entered_def)
  with run show ?thesis
    by blast
qed

text \<open>
  C4. The target URL built from a country token is the base URL
  \<^verbatim>\<open>https://trends24.in/\<close> for the sentinel \<^verbatim>\<open>global\<close>, and the base URL, the token and
  a slash for every other token; the token \<^verbatim>\<open>japan\<close> gives
  \<^verbatim>\<open>https://trends24.in/japan/\<close>.
\<close>

theorem target_url_of_country:
  "build_url (lit ''global'') = lit ''https://trends24.in/'' \<and>
   (c \<noteq> lit ''global'' \<longrightarrow> build_url c = lit ''https://trends24.in/'' @ c @ lit ''/'') \<and>
   build_url (lit ''japan'') = lit ''https://trends24.in/japan/''"
proof (intro conjI impI)
  show "build_url (lit ''global'') = lit ''https://trends24.in/''"
    by (simp add: build_url_def base_url_def)
  show "build_url c = lit ''https://trends24.in/'' @ c @ lit ''/''" if "c \<noteq> lit ''global''"
    using that by (simp add: build_url_def base_url_def)
  have "lit ''japan'' \<noteq> lit ''global''"
    by (simp add: lit_def)
  then have "build_url (lit ''japan'') = lit ''https://trends24.in/'' @ lit ''japan'' @ lit ''/''"
    by (simp add: build_url_def base_url_def)
  also have "\<dots> = lit ''https://trends24.in/japan/''"
    by (simp add: lit_def)
  finally show "build_url (lit ''japan'') = lit ''https://trends24.in/japan/''" .
qed

theorem target_url_of_country_witness:
  "lit ''mexico'' \<noteq> lit ''global'' \<and>
   build_url (lit ''mexico'') = lit ''https://trends24.in/'' @ lit ''mexico'' @ lit ''/''"
proof -
  have ne: "lit ''mexico'' \<noteq> lit ''global''"
    by (simp add: lit_def)
  with target_url_of_country [of "lit ''mexico''"] show ?thesis
    by blast
qed

text \<open>
  C5, as stated: only the \<^verbatim>\<open>snippet\<close> field of a search result reaches a prompt, in
  stage 3 too. It fails in stage 3: line 79 formats the whole result list into the prompt.
  Two result lists with the same snippets and another link in the first result give the
  same text in stage 2 and two different prompts in stage 3.
\<close>

theorem link_field_reaches_stage_three_prompt:
  "results_text demo_results = results_text demo_results_relinked \<and>
   research_one (scripted [] (lit ''why'') demo_results) (lit ''x'') start =
     Inr (lit ''why'',
          \<lparr>world = 1,
           trace = [SearchCall (context_query (lit ''x'')) 3 demo_results,
                    LLMCall (context_prompt (isprintable (scripted [] (lit ''why'') demo_results))
                               (lit ''x'') demo_results) (lit ''why'')]\<rparr>) \<and>
   research_one (scripted [] (lit ''why'') demo_results_relinked) (lit ''x'') start =
     Inr (lit ''why'',
          \<lparr>world = 1,
           trace = [SearchCall (context_query (lit ''x'')) 3 demo_results_relinked,
                    LLMCall (context_prompt (isprintable (scripted [] (lit ''why'') demo_results_relinked))
                               (lit ''x'') demo_results_relinked) (lit ''why'')]\<rparr>) \<and>
   context_prompt (isprintable (scripted [] (lit ''why'') demo_results)) (lit ''x'') demo_results \<noteq>
   context_prompt (isprintable (scripted [] (lit ''why'') demo_results_relinked)) (lit ''x'')
     demo_results_relinked"
proof -
  have s: "strip (lit ''why'') = lit ''why''"
    by (simp add: strip_def lstrip_def rstrip_def isspace_def lit_def)
  have t: "take 3 demo_results = demo_results" "take 3 demo_results_relinked = demo_results_relinked"
    by (simp_all add: demo_results_def demo_results_relinked_def)
  have 1: "results_text demo_results = results_text demo_results_relinked"
    by (simp add: results_text_def demo_results_def demo_results_relinked_def dict_get_def)
  have pr: "isprintable (scripted [] (lit ''why'') found) = (\<lambda>c. False)" for found
    by (simp add: scripted_def)
  have "str_of_results (\<lambda>c. False) demo_results \<noteq> str_of_results (\<lambda>c. False) demo_results_relinked"
    by (simp add: str_of_results_def repr_dict_def repr_str_def repr_char_def repr_quote_def
        demo_results_def demo_results_relinked_def squote_def dquote_def backslash_def lit_def)
  then have 4: "context_prompt (isprintable (scripted [] (lit ''why'') demo_results)) (lit ''x'')
      demo_results \<noteq>
    context_prompt (isprintable (scripted [] (lit ''why'') demo_results_relinked)) (lit ''x'')
      demo_results_relinked"
    by (simp add: pr context_prompt_def)
  show ?thesis
    using 1 4 by (simp add: scripted_research_one t s start_def)
qed

text \<open>
  C5, amended. In stage 2 the results of the search reach the extraction prompt through
  their \<^verbatim>\<open>snippet\<close> fields only (the empty string where a result has none), joined by
  newlines: result lists with the same snippets give the same prompt. In stage 3 the
  prompt of a trend ends with the printed form of the whole result list of its search,
  every field of every result included.
\<close>

theorem prompts_and_search_results:
  "(analyze_and_get_trends d st r = Inr (ws, r') \<longrightarrow>
      (\<exists>c1 found c2.
         trace r' = trace r @
           [LLMCall (country_prompt (query st)) c1,
            SearchCall (search_query (normalize_country (str_lower d) c1)) 5 found,
            LLMCall
              (extract_prompt (build_url (normalize_country (str_lower d) c1))
                 (join (lit ''\<newline>'') (map (\<lambda>x. dict_get x (lit ''snippet'') []) found)))
              c2])) \<and>
   (map_of x (lit ''snippet'') = None \<longrightarrow> dict_get x (lit ''snippet'') [] = []) \<and>
   (map_of x (lit ''snippet'') = Some v \<longrightarrow> dict_get x (lit ''snippet'') [] = v) \<and>
   (map (\<lambda>x. dict_get x (lit ''snippet'') []) found =
      map (\<lambda>x. dict_get x (lit ''snippet'') []) found' \<longrightarrow>
    extract_prompt url (results_text found) = extract_prompt url (results_text found')) \<and>
   (research_one d t r = Inr (rep, r') \<longrightarrow>
      (\<exists>found c pre.
         trace r' = trace r @
           [SearchCall (context_query t) 3 found,
            LLMCall (pre @ str_of_results (isprintable d) found) c] \<and>
         pre @ str_of_results (isprintable d) found = context_prompt (isprintable d) t found))"
proof (intro conjI impI)
  assume "analyze_and_get_trends d st r = Inr (ws, r')"
  from analyze_Inr [OF this] show "\<exists>c1 found c2.
         trace r' = trace r @
           [LLMCall (country_prompt (query st)) c1,
            SearchCall (search_query (normalize_country (str_lower d) c1)) 5 found,
            LLMCall
              (extract_prompt (build_url (normalize_country (str_lower d) c1))
                 (join (lit ''\<newline>'') (map (\<lambda>x. dict_get x (lit ''snippet'') []) found)))
              c2]"
    unfolding results_text_def by blast
next
  assume "map_of x (lit ''snippet'') = None"
  then show "dict_get x (lit ''snippet'') [] = []"
    by (simp add: dict_get_def)
next
  assume "map_of x (lit ''snippet'') = Some v"
  then show "dict_get x (lit ''snippet'') [] = v"
    by (simp add: dict_get_def)
next
  assume "map (\<lambda>x. dict_get x (lit ''snippet'') []) found =
      map (\<lambda>x. dict_get x (lit ''snippet'') []) found'"
  then show "extract_prompt url (results_text found) = extract_prompt url (results_text found')"
    by (simp add: results_text_def)
next
  assume "research_one d t r = Inr (rep, r')"
  from research_one_Inr [OF this] obtain found c where
    tr: "trace r' = trace r @
      [SearchCall (context_query t) 3 found, LLMCall (context_prompt (isprintable d) t found) c]"
    by blast
  obtain pre where pre: "context_prompt (isprintable d) t found =
      pre @ str_of_results (isprintable d) found"
    unfolding context_prompt_def by (metis append.assoc)
  show "\<exists>found c pre.
         trace r' = trace r @
           [SearchCall (context_query t) 3 found,
            LLMCall (pre @ str_of_results (isprintable d) found) c] \<and>
         pre @ str_of_results (isprintable d) found = context_prompt (isprintable d) t found"
    using tr pre by metis
qed

theorem prompts_and_search_results_witness:
  "map (\<lambda>x. dict_get x (lit ''snippet'') []) demo_results =
     map (\<lambda>x. dict_get x (lit ''snippet'') []) demo_results_relinked \<and>
   extract_prompt (lit ''https://trends24.in/'') (results_text demo_results) =
     extract_prompt (lit ''https://trends24.in/'') (results_text demo_results_relinked) \<and>
   dict_get [(lit ''title'', lit ''U'')] (lit ''snippet'') [] = [] \<and>
   dict_get [(lit ''snippet'', lit ''one'')] (lit ''snippet'') [] = lit ''one'' \<and>
   (\<exists>rep r' found c pre.
      research_one (scripted [] (lit ''why'') demo_results) (lit ''x'') start = Inr (rep, r') \<and>
      trace r' = trace start @
        [SearchCall (context_query (lit ''x'')) 3 found,
         LLMCall (pre @ str_of_results (isprintable (scripted [] (lit ''why'') demo_results)) found)
           c]) \<and>
   (\<exists>ws r' c1 found c2.
      analyze_and_get_trends (scripted [lit ''global'', lit ''a, b''] (lit ''ok'') demo_results)
        (initial_state (lit ''hi'')) start = Inr (ws, r') \<and>
      trace r' = trace start @
        [LLMCall (country_prompt (query (initial_state (lit ''hi'')))) c1,
         SearchCall
           (search_query
              (normalize_country
                 (str_lower (scripted [lit ''global'', lit ''a, b''] (lit ''ok'') demo_results)) c1))
           5 found,
         LLMCall
           (extract_prompt
              (build_url
                 (normalize_country
                    (str_lower (scripted [lit ''global'', lit ''a, b''] (lit ''ok'') demo_results))
                    c1))
              (join (lit ''\<newline>'') (map (\<lambda>x. dict_get x (lit ''snippet'') []) found)))
           c2])"
proof -
  let ?d = "scripted [] (lit ''why'') demo_results"
  let ?e = "scripted [lit ''global'', lit ''a, b''] (lit ''ok'') demo_results"
  have ne: "lit ''title'' \<noteq> lit ''snippet''"
    by (simp add: lit_def)
  have 1: "map (\<lambda>x. dict_get x (lit ''snippet'') []) demo_results =
      map (\<lambda>x. dict_get x (lit ''snippet'') []) demo_results_relinked"
    by (simp add: demo_results_def demo_results_relinked_def dict_get_def)
  have 2: "extract_prompt (lit ''https://trends24.in/'') (results_text demo_results) =
      extract_prompt (lit ''https://trends24.in/'') (results_text demo_results_relinked)"
    using prompts_and_search_results [where found = demo_results and found' = demo_results_relinked] 1
    by blast
  have 3: "dict_get [(lit ''title'', lit ''U'')] (lit ''snippet'') [] = []"
  proof -
    have "map_of [(lit ''title'', lit ''U'')] (lit ''snippet'') = None"
      using ne by simp
    with prompts_and_search_results [where x = "[(lit ''title'', lit ''U'')]"] show ?thesis
      by blast
  qed
  have 4: "dict_get [(lit ''snippet'', lit ''one'')] (lit ''snippet'') [] = lit ''one''"
  proof -
    have "map_of [(lit ''snippet'', lit ''one'')] (lit ''snippet'') = Some (lit ''one'')"
      by simp
    with prompts_and_search_results
      [where x = "[(lit ''snippet'', lit ''one'')]" and v = "lit ''one''"]
    show ?thesis
      by blast
  qed
  obtain rep r' where one: "research_one ?d (lit ''x'') start = Inr (rep, r')"
    using research_one_reliable [OF scripted_reliable] by blast
  have 5: "\<exists>rep r' found c pre.
      research_one ?d (lit ''x'') start = Inr (rep, r') \<and>
      trace r' = trace start @
        [SearchCall (context_query (lit ''x'')) 3 found,
         LLMCall (pre @ str_of_results (isprintable ?d) found) c]"
    using prompts_and_search_results
      [where d = ?d and r = start and r' = r' and t = "lit ''x''" and rep = rep] one
    by blast
  obtain ws r2 where two: "analyze_and_get_trends ?e (initial_state (lit ''hi'')) start = Inr (ws, r2)"
    using analyze_reliable [OF scripted_reliable] by blast
  have 6: "\<exists>ws r' c1 found c2.
      analyze_and_get_trends ?e (initial_state (lit ''hi'')) start = Inr (ws, r') \<and>
      trace r' = trace start @
        [LLMCall (country_prompt (query (initial_state (lit ''hi'')))) c1,
         SearchCall (search_query (normalize_country (str_lower ?e) c1)) 5 found,
         LLMCall
           (extract_prompt (build_url (normalize_country (str_lower ?e) c1))
              (join (lit ''\<newline>'') (map (\<lambda>x. dict_get x (lit ''snippet'') []) found)))
           c2]"
    using prompts_and_search_results
      [where d = ?e and st = "initial_state (lit ''hi'')" and r = start and ws = ws and r' = r2] two
    by blast
  from 1 2 3 4 5 6 show ?thesis
    by (intro conjI)
qed

text \<open>
  C6, as stated: normalizing a token that is lower-case and has no quote character returns
  it unchanged, and normalizing is idempotent. Neither holds. The token of a space and
  \<^verbatim>\<open>japan\<close> is lower-case and has no quote, and is normalized to \<^verbatim>\<open>japan\<close>: the
  space is trimmed. And the reply that holds the same text between single quotes is
  normalized to the text with its space, because the quotes go after the trimming; a
  second normalization takes the space away.
\<close>

theorem normalize_country_not_idempotent:
  "ascii_lower (lit '' japan'') = lit '' japan'' \<and>
   squote \<notin> set (lit '' japan'') \<and> dquote \<notin> set (lit '' japan'') \<and>
   normalize_country ascii_lower (lit '' japan'') = lit ''japan'' \<and>
   normalize_country ascii_lower (lit '' japan'') \<noteq> lit '' japan'' \<and>
   normalize_country ascii_lower (squote # lit '' japan'' @ [squote]) = lit '' japan'' \<and>
   normalize_country ascii_lower (normalize_country ascii_lower (squote # lit '' japan'' @ [squote]))
     \<noteq> normalize_country ascii_lower (squote # lit '' japan'' @ [squote])"
  by (simp add: normalize_country_def ascii_lower_def remove_char_def strip_def lstrip_def
      rstrip_def isspace_def squote_def dquote_def lit_def)

text \<open>
  C6, amended: a token that is lower-case (lower-casing returns it), has no single or
  double quote and no whitespace at either end (trimming returns it) is returned
  unchanged by the normalization.
\<close>

theorem normalize_country_fixes_clean_token:
  assumes "lower t = t" and "squote \<notin> set t" and "dquote \<notin> set t" and "strip t = t"
  shows "normalize_country lower t = t"
proof -
  have "remove_char squote t = t" "remove_char dquote t = t"
    using assms(2,3) by (auto simp: remove_char_def filter_id_conv)
  with assms(1,4) show ?thesis
    by (simp add: normalize_country_def)
qed

theorem normalize_country_fixes_clean_token_witness:
  "ascii_lower (lit ''japan'') = lit ''japan'' \<and> squote \<notin> set (lit ''japan'') \<and>
   dquote \<notin> set (lit ''japan'') \<and> strip (lit ''japan'') = lit ''japan'' \<and>
   normalize_country ascii_lower (lit ''japan'') = lit ''japan''"
proof -
  have 1: "ascii_lower (lit ''japan'') = lit ''japan''"
    by (simp add: ascii_lower_def lit_def)
  have 2: "squote \<notin> set (lit ''japan'')" and 3: "dquote \<notin> set (lit ''japan'')"
    by (simp_all add: squote_def dquote_def lit_def)
  have 4: "strip (lit ''japan'') = lit ''japan''"
    by (simp add: strip_def lstrip_def rstrip_def isspace_def lit_def)
  from 1 2 3 4 normalize_country_fixes_clean_token [of ascii_lower "lit ''japan''", OF 1 2 3 4]
  show ?thesis
    by (intro conjI)
qed

text \<open>
  C7. When the services answer and the reply that stage 2 reads the trends from (the
  last call of the model in \<^verbatim>\<open>analyze_and_get_trends\<close>) has no comma and is not empty
  after trimming, the trend list is the trimmed reply alone, stage 3 returns exactly one
  report, stage 4 returns a final report, and the handler yields it: no error is raised.
\<close>

theorem single_phrase_reply_degrades_gracefully:
  assumes "reliable d"
    and "analyze_and_get_trends d (initial_state (get_message_text d input))
           (enter ''get_trends'' r0) = Inr (ws1, r1)"
    and "last (trace r1) = LLMCall p c"
    and "comma \<notin> set c" and "strip c \<noteq> []"
  shows "ws1 = [W_trends [strip c]] \<and>
    (\<exists>rep r2 fin r3.
       research_trends_context d
         (apply_writes (initial_state (get_message_text d input)) ws1)
         (enter ''research_context'' r1) = Inr ([W_context_reports [rep]], r2) \<and>
       synthesize_report d
         (apply_writes (apply_writes (initial_state (get_message_text d input)) ws1)
            [W_context_reports [rep]])
         (enter ''synthesize'' r2) = Inr ([W_final_report fin], r3) \<and>
       langgraph_trends_agent d input r0 = Inr ([AgentMessage fin], r3))"
proof -
  let ?s0 = "initial_state (get_message_text d input)"
  from analyze_Inr [OF assms(2)] assms(3) have "ws1 = [W_trends (parse_trends c)]"
    by auto
  then have ws1: "ws1 = [W_trends [strip c]]"
    using assms(4,5) by (simp add: parse_trends_single)
  then have ts: "trends (apply_writes ?s0 ws1) = [strip c]"
    by (simp add: apply_writes_def)
  obtain reports r2 where
    2: "research_trends_context d (apply_writes ?s0 ws1) (enter ''research_context'' r1) =
          Inr ([W_context_reports reports], r2)"
    using research_reliable [OF assms(1)] by blast
  from research_single [OF 2 ts] obtain rep where rep: "reports = [rep]"
    by auto
  obtain fin r3 where
    3: "synthesize_report d (apply_writes (apply_writes ?s0 ws1) [W_context_reports [rep]])
          (enter ''synthesize'' r2) = Inr ([W_final_report (strip fin)], r3)"
    using synthesize_reliable [OF assms(1)] by blast
  have "langgraph_trends_agent d input r0 = Inr ([AgentMessage (strip fin)], r3)"
    by (simp add: handler_unfold assms(2) 2 [unfolded rep] 3) (simp add: apply_writes_def)
  with ws1 2 [unfolded rep] 3 show ?thesis
    by blast
qed

theorem single_phrase_reply_degrades_gracefully_witness:
  "\<exists>r1 p rep r2 fin r3.
     analyze_and_get_trends (scripted [lit ''Japan'', lit '' nothing much ''] (lit ''ok'') demo_results)
       (initial_state (lit ''hi'')) (enter ''get_trends'' start) =
       Inr ([W_trends [lit ''nothing much'']], r1) \<and>
     last (trace r1) = LLMCall p (lit '' nothing much '') \<and>
     research_trends_context (scripted [lit ''Japan'', lit '' nothing much ''] (lit ''ok'') demo_results)
       (apply_writes (initial_state (lit ''hi'')) [W_trends [lit ''nothing much'']])
       (enter ''research_context'' r1) = Inr ([W_context_reports [rep]], r2) \<and>
     langgraph_trends_agent (scripted [lit ''Japan'', lit '' nothing much ''] (lit ''ok'') demo_results)
       (lit ''hi'') start = Inr ([AgentMessage fin], r3)"
proof -
  let ?c = "lit '' nothing much ''"
  let ?d = "scripted [lit ''Japan'', ?c] (lit ''ok'') demo_results"
  let ?st = "initial_state (lit ''hi'')"
  have g: "get_message_text ?d (lit ''hi'') = lit ''hi''"
    by (simp add: scripted_def)
  have w: "world (enter ''get_trends'' start) = 0"
    by (simp add: start_def enter_def)
  have nc: "comma \<notin> set ?c"
    by (simp add: comma_def lit_def)
  have sc: "strip ?c = lit ''nothing much''"
    by (simp add: strip_def lstrip_def rstrip_def isspace_def lit_def)
  then have ne: "strip ?c \<noteq> []"
    by (simp add: lit_def)
  obtain ws1 r1 where
    1: "analyze_and_get_trends ?d (initial_state (get_message_text ?d (lit ''hi'')))
          (enter ''get_trends'' start) = Inr (ws1, r1)"
    using analyze_reliable [OF scripted_reliable] by blast
  from 1 [unfolded scripted_analyze_at [OF w]] obtain p where l: "last (trace r1) = LLMCall p ?c"
    by auto
  from single_phrase_reply_degrades_gracefully [OF scripted_reliable 1 l nc ne] 1 l
  show ?thesis
    unfolding sc g by blast
qed

text \<open>
  C8, as stated: for every country token the query of stage 2 is
  \<^verbatim>\<open>site:trends24.in top trending topics\<close>, a space and the token. It fails for the
  sentinel: when the model answers \<^verbatim>\<open>global\<close>, which is the token then, the query ends
  after the space.
\<close>

theorem global_search_query_has_no_country:
  "normalize_country ascii_lower (lit ''global'') = lit ''global'' \<and>
   analyze_and_get_trends (scripted [lit ''global'', lit ''a, b''] (lit ''ok'') demo_results)
     (initial_state (lit ''Tell me about global trends.'')) start =
     Inr ([W_trends [lit ''a'', lit ''b'']],
          \<lparr>world = 2,
           trace = [LLMCall (country_prompt (lit ''Tell me about global trends.'')) (lit ''global''),
                    SearchCall (lit ''site:trends24.in top trending topics '') 5 demo_results,
                    LLMCall (extract_prompt (lit ''https://trends24.in/'') (results_text demo_results))
                      (lit ''a, b'')]\<rparr>) \<and>
   lit ''site:trends24.in top trending topics '' \<noteq>
     lit ''site:trends24.in top trending topics global''"
proof -
  have n: "normalize_country ascii_lower (lit ''global'') = lit ''global''"
    by (simp add: normalize_country_def ascii_lower_def remove_char_def strip_def lstrip_def
        rstrip_def isspace_def squote_def dquote_def lit_def)
  have p: "parse_trends (lit ''a, b'') = [lit ''a'', lit ''b'']"
    by (simp add: parse_trends_def split_def lit_def comma_def strip_def lstrip_def rstrip_def
        isspace_def)
  have t: "take 5 demo_results = demo_results"
    by (simp add: demo_results_def)
  have q: "search_query (lit ''global'') = lit ''site:trends24.in top trending topics ''"
    by (simp add: search_query_def)
  have u: "build_url (lit ''global'') = lit ''https://trends24.in/''"
    by (simp add: build_url_def base_url_def)
  have s: "query (initial_state (lit ''Tell me about global trends.'')) =
      lit ''Tell me about global trends.''"
    by (simp add: initial_state_def)
  have w: "world start = 0" "trace start = []"
    by (simp_all add: start_def)
  have "lit ''site:trends24.in top trending topics '' \<noteq>
     lit ''site:trends24.in top trending topics global''"
    by (simp add: lit_def)
  then show ?thesis
    using n by (simp add: scripted_analyze_at [OF w(1)] p t q u s w(2))
qed

text \<open>
  C8, amended. Stage 2 makes exactly one search, for five results, whose query is
  \<^verbatim>\<open>site:trends24.in top trending topics\<close> and a space, followed by the country token
  unless the token is \<^verbatim>\<open>global\<close>, and by nothing when it is. Stage 3 makes exactly
  one search per trend, in the order of the trends, for three results each, with the query
  \<^verbatim>\<open>why is\<close>, the trend and \<^verbatim>\<open>trending news today source article\<close>. Both stages
  return when the services answer.
\<close>

theorem search_queries_issued:
  "(reliable d \<longrightarrow>
      (\<exists>ws r'. analyze_and_get_trends d st r = Inr (ws, r')) \<and>
      (\<exists>ws r'. research_trends_context d st r = Inr (ws, r'))) \<and>
   (analyze_and_get_trends d st r = Inr (ws, r') \<longrightarrow>
      (\<exists>c1 found c2.
         trace r' = trace r @
           [LLMCall (country_prompt (query st)) c1,
            SearchCall
              (lit ''site:trends24.in top trending topics '' @
               (if normalize_country (str_lower d) c1 = lit ''global'' then []
                else normalize_country (str_lower d) c1))
              5 found,
            LLMCall (extract_prompt (build_url (normalize_country (str_lower d) c1))
                       (results_text found)) c2] \<and>
         searches (trace r') = searches (trace r) @
           [(lit ''site:trends24.in top trending topics '' @
             (if normalize_country (str_lower d) c1 = lit ''global'' then []
              else normalize_country (str_lower d) c1), 5)])) \<and>
   (research_trends_context d st r = Inr (ws, r') \<longrightarrow>
      searches (trace r') = searches (trace r) @
        map (\<lambda>t. (lit ''why is '' @ t @ lit '' trending news today source article'', 3))
          (trends st))"
proof (intro conjI impI)
  assume "reliable d"
  then show "\<exists>ws r'. analyze_and_get_trends d st r = Inr (ws, r')"
    by (rule analyze_reliable)
next
  assume "reliable d"
  from research_reliable [OF this] show "\<exists>ws r'. research_trends_context d st r = Inr (ws, r')"
    by blast
next
  assume "analyze_and_get_trends d st r = Inr (ws, r')"
  from analyze_Inr [OF this] obtain c1 found c2 where
    tr: "trace r' = trace r @
             [LLMCall (country_prompt (query st)) c1,
              SearchCall (search_query (normalize_country (str_lower d) c1)) 5 found,
              LLMCall (extract_prompt (build_url (normalize_country (str_lower d) c1))
                         (results_text found)) c2]"
    by blast
  let ?q = "lit ''site:trends24.in top trending topics '' @
               (if normalize_country (str_lower d) c1 = lit ''global'' then []
                else normalize_country (str_lower d) c1)"
  have q: "search_query (normalize_country (str_lower d) c1) = ?q"
    by (simp add: search_query_def)
  have "searches (trace r') = searches (trace r) @ [(?q, 5)]"
    unfolding tr q by (simp add: searches_def)
  with tr [unfolded q] show "\<exists>c1 found c2.
         trace r' = trace r @
           [LLMCall (country_prompt (query st)) c1,
            SearchCall
              (lit ''site:trends24.in top trending topics '' @
               (if normalize_country (str_lower d) c1 = lit ''global'' then []
                else normalize_country (str_lower d) c1))
              5 found,
            LLMCall (extract_prompt (build_url (normalize_country (str_lower d) c1))
                       (results_text found)) c2] \<and>
         searches (trace r') = searches (trace r) @
           [(lit ''site:trends24.in top trending topics '' @
             (if normalize_country (str_lower d) c1 = lit ''global'' then []
              else normalize_country (str_lower d) c1), 5)]"
    by blast
next
  assume "research_trends_context d st r = Inr (ws, r')"
  from research_Inr [OF this] obtain reports where
    "research_loop d (trends st) [] r = Inr (reports, r')"
    by blast
  from research_loop_searches [OF this]
  show "searches (trace r') = searches (trace r) @
        map (\<lambda>t. (lit ''why is '' @ t @ lit '' trending news today source article'', 3))
          (trends st)"
    by (simp add: context_query_def)
qed

theorem search_queries_issued_witness:
  "\<exists>ws r' ws2 r2.
     analyze_and_get_trends (scripted [lit '' \"Japan\" '', lit ''a, b''] (lit ''ok'') demo_results)
       (initial_state (lit ''What is trending in Japan?'')) start = Inr (ws, r') \<and>
     searches (trace r') = [(lit ''site:trends24.in top trending topics japan'', 5)] \<and>
     research_trends_context (scripted [lit '' \"Japan\" '', lit ''a, b''] (lit ''ok'') demo_results)
       two_trends start = Inr (ws2, r2) \<and>
     searches (trace r2) =
       [(lit ''why is alpha trending news today source article'', 3),
        (lit ''why is beta trending news today source article'', 3)]"
proof -
  let ?d = "scripted [lit '' \"Japan\" '', lit ''a, b''] (lit ''ok'') demo_results"
  let ?st = "initial_state (lit ''What is trending in Japan?'')"
  have n: "normalize_country ascii_lower (lit '' \"Japan\" '') = lit ''japan''"
    by (simp add: normalize_country_def ascii_lower_def remove_char_def strip_def lstrip_def
        rstrip_def isspace_def squote_def dquote_def lit_def)
  have ne: "lit ''japan'' \<noteq> lit ''global''"
    by (simp add: lit_def)
  have low: "str_lower ?d = ascii_lower"
    by (simp add: scripted_def)
  have s0: "searches (trace start) = []"
    by (simp add: start_def searches_def)
  obtain ws r' where 1: "analyze_and_get_trends ?d ?st start = Inr (ws, r')"
    using search_queries_issued [of ?d ?st start] scripted_reliable by blast
  obtain ws2 r2 where 2: "research_trends_context ?d two_trends start = Inr (ws2, r2)"
    using search_queries_issued [of ?d two_trends start] scripted_reliable by blast
  from search_queries_issued [of ?d ?st start ws r'] 1 obtain c1 found c2 where
    tr: "trace r' = trace start @
           [LLMCall (country_prompt (query ?st)) c1,
            SearchCall
              (lit ''site:trends24.in top trending topics '' @
               (if normalize_country (str_lower ?d) c1 = lit ''global'' then []
                else normalize_country (str_lower ?d) c1))
              5 found,
            LLMCall (extract_prompt (build_url (normalize_country (str_lower ?d) c1))
                       (results_text found)) c2]" and
    se: "searches (trace r') = searches (trace start) @
           [(lit ''site:trends24.in top trending topics '' @
             (if normalize_country (str_lower ?d) c1 = lit ''global'' then []
              else normalize_country (str_lower ?d) c1), 5)]"
    by blast
  have "world start = 0"
    by (simp add: start_def)
  from 1 [unfolded scripted_analyze_at [OF this]]
  have "hd (trace r') = LLMCall (country_prompt (query ?st)) (lit '' \"Japan\" '')"
    by (auto simp: start_def)
  with tr have "c1 = lit '' \"Japan\" ''"
    by (simp add: start_def)
  with se have a: "searches (trace r') = [(lit ''site:trends24.in top trending topics japan'', 5)]"
    by (simp add: low n ne s0) (simp add: lit_def)
  from search_queries_issued [of ?d two_trends start ws2 r2] 2
  have "searches (trace r2) = searches (trace start) @
        map (\<lambda>t. (lit ''why is '' @ t @ lit '' trending news today source article'', 3))
          (trends two_trends)"
    by blast
  then have b: "searches (trace r2) =
       [(lit ''why is alpha trending news today source article'', 3),
        (lit ''why is beta trending news today source article'', 3)]"
    by (simp add: s0 two_trends_def) (simp add: lit_def)
  from 1 a 2 b show ?thesis
    by blast
qed

text \<open>
  C9. With no trends in the state, stage 3 returns the empty list of reports and leaves
  the run as it was: no search, no call of the model. Zero reports join to the empty
  string, and stage 4 sends the prompt that ends with it and stores the trimmed reply.
  So when stage 2 of a request yields no trends and the services answer, the handler
  yields exactly one message, and after stage 2 the run only enters the two other nodes
  and calls the model once.
\<close>

theorem empty_trends_still_one_report:
  "(trends st = [] \<longrightarrow> research_trends_context d st r = Inr ([W_context_reports []], r)) \<and>
   join (lit ''\<newline>\<newline>'') [] = [] \<and>
   (reliable d \<and> context_reports st = [] \<longrightarrow>
      (\<exists>c r'. synthesize_report d st r = Inr ([W_final_report (strip c)], r') \<and>
               trace r' = trace r @ [LLMCall (final_prompt []) c])) \<and>
   (reliable d \<and>
    analyze_and_get_trends d (initial_state (get_message_text d input)) (enter ''get_trends'' r0) =
      Inr ([W_trends []], r1) \<longrightarrow>
      (\<exists>c r'. langgraph_trends_agent d input r0 = Inr ([AgentMessage (strip c)], r') \<and>
         trace r' = trace r1 @
           [NodeEntered ''research_context'', NodeEntered ''synthesize'',
            LLMCall (final_prompt []) c]))"
proof (intro conjI impI)
  show "research_trends_context d st r = Inr ([W_context_reports []], r)" if "trends st = []"
    by (simp add: research_trends_context_def that)
  show "join (lit ''\<newline>\<newline>'') [] = []"
    by simp
  show "\<exists>c r'. synthesize_report d st r = Inr ([W_final_report (strip c)], r') \<and>
               trace r' = trace r @ [LLMCall (final_prompt []) c]"
    if a: "reliable d \<and> context_reports st = []"
  proof -
    from ainvoke_reliable a obtain c r' where
      i: "ainvoke d (final_prompt []) r = Inr (c, r')"
      by blast
    then have "synthesize_report d st r = Inr ([W_final_report (strip c)], r')"
      using a by (simp add: synthesize_report_def)
    with ainvoke_trace [OF i] show ?thesis
      by blast
  qed
next
  assume a: "reliable d \<and>
     analyze_and_get_trends d (initial_state (get_message_text d input)) (enter ''get_trends'' r0) =
       Inr ([W_trends []], r1)"
  let ?s0 = "initial_state (get_message_text d input)"
  let ?s1 = "apply_writes ?s0 [W_trends []]"
  have t1: "trends ?s1 = []"
    by (simp add: apply_writes_def)
  have 2: "research_trends_context d ?s1 (enter ''research_context'' r1) =
      Inr ([W_context_reports []], enter ''research_context'' r1)"
    by (simp add: research_trends_context_def t1)
  let ?s2 = "apply_writes ?s1 [W_context_reports []]"
  have j: "join (lit ''\<newline>\<newline>'') (context_reports ?s2) = []"
    by (simp add: apply_writes_def)
  obtain c r3 where
    i: "ainvoke d (final_prompt []) (enter ''synthesize'' (enter ''research_context'' r1)) = Inr (c, r3)"
    using ainvoke_reliable a by blast
  then have 3: "synthesize_report d ?s2 (enter ''synthesize'' (enter ''research_context'' r1)) =
      Inr ([W_final_report (strip c)], r3)"
    by (simp add: synthesize_report_def j)
  have "langgraph_trends_agent d input r0 = Inr ([AgentMessage (strip c)], r3)"
    using a by (simp add: handler_unfold 2 3) (simp add: apply_writes_def)
  moreover have "trace r3 = trace r1 @
            [NodeEntered ''research_context'', NodeEntered ''synthesize'',
             LLMCall (final_prompt []) c]"
    using ainvoke_trace [OF i] by (simp add: enter_trace)
  ultimately show "\<exists>c r'. langgraph_trends_agent d input r0 = Inr ([AgentMessage (strip c)], r') \<and>
          trace r' = trace r1 @
            [NodeEntered ''research_context'', NodeEntered ''synthesize'',
             LLMCall (final_prompt []) c]"
    by blast
qed

theorem empty_trends_still_one_report_witness:
  "\<exists>r1 c r'.
     analyze_and_get_trends (scripted [lit ''global'', lit '' , ,''] (lit '' nothing '') demo_results)
       (initial_state (lit ''hi'')) (enter ''get_trends'' start) = Inr ([W_trends []], r1) \<and>
     research_trends_context (scripted [lit ''global'', lit '' , ,''] (lit '' nothing '') demo_results)
       (apply_writes (initial_state (lit ''hi'')) [W_trends []]) r1 =
       Inr ([W_context_reports []], r1) \<and>
     langgraph_trends_agent (scripted [lit ''global'', lit '' , ,''] (lit '' nothing '') demo_results)
       (lit ''hi'') start = Inr ([AgentMessage (strip c)], r') \<and>
     trace r' = trace r1 @
       [NodeEntered ''research_context'', NodeEntered ''synthesize'', LLMCall (final_prompt []) c]"
proof -
  let ?d = "scripted [lit ''global'', lit '' , ,''] (lit '' nothing '') demo_results"
  let ?s0 = "initial_state (lit ''hi'')"
  have g: "get_message_text ?d (lit ''hi'') = lit ''hi''"
    by (simp add: scripted_def)
  have w: "world (enter ''get_trends'' start) = 0"
    by (simp add: start_def enter_def)
  obtain r1 where
    1: "analyze_and_get_trends ?d (initial_state (get_message_text ?d (lit ''hi'')))
          (enter ''get_trends'' start) = Inr ([W_trends []], r1)"
    unfolding scripted_analyze_at [OF w] parse_blank by blast
  have t: "trends (apply_writes ?s0 [W_trends []]) = []"
    by (simp add: apply_writes_def)
  note inst = empty_trends_still_one_report
    [where d = ?d and st = "apply_writes ?s0 [W_trends []]" and input = "lit ''hi''"
       and ?r0.0 = start and ?r1.0 = r1]
  have 2: "research_trends_context ?d (apply_writes ?s0 [W_trends []]) r1 =
      Inr ([W_context_reports []], r1)"
    using inst [where r = r1] t by blast
  obtain c r' where
    "langgraph_trends_agent ?d (lit ''hi'') start = Inr ([AgentMessage (strip c)], r')"
    "trace r' = trace r1 @
       [NodeEntered ''research_context'', NodeEntered ''synthesize'', LLMCall (final_prompt []) c]"
    using inst scripted_reliable 1 by blast
  with 1 [unfolded g] 2 show ?thesis
    by blast
qed

text \<open>
  C10. Every trend that \<^verbatim>\<open>analyze_and_get_trends\<close> stores has no comma, is not empty
  and neither starts nor ends with whitespace. The writes of the two later nodes leave
  the trend list as it is, so the same holds of the trends in the state the graph ends
  with.
\<close>

theorem trends_entries_clean_and_kept:
  "(analyze_and_get_trends d st r = Inr (ws, r') \<longrightarrow>
      (\<exists>ts. ws = [W_trends ts] \<and> trends (apply_writes st ws) = ts \<and>
         (\<forall>t \<in> set ts. comma \<notin> set t \<and> t \<noteq> [] \<and> \<not> isspace (hd t) \<and> \<not> isspace (last t)))) \<and>
   (research_trends_context d st r = Inr (ws, r') \<longrightarrow> trends (apply_writes st ws) = trends st) \<and>
   (synthesize_report d st r = Inr (ws, r') \<longrightarrow> trends (apply_writes st ws) = trends st) \<and>
   (app_ainvoke d st r = Inr (s, r') \<longrightarrow>
      (\<forall>t \<in> set (trends s). comma \<notin> set t \<and> t \<noteq> [] \<and> \<not> isspace (hd t) \<and> \<not> isspace (last t)))"
proof -
  have clean: "comma \<notin> set t \<and> t \<noteq> [] \<and> \<not> isspace (hd t) \<and> \<not> isspace (last t)"
    if "t \<in> set (parse_trends c)" for t c
  proof -
    from that have t: "t \<noteq> []" "strip t = t" "comma \<notin> set t"
      using parse_trends_entry by blast+
    then have "strip t \<noteq> []"
      by simp
    from strip_head [OF this] strip_last [OF this] t show ?thesis
      by simp
  qed
  have A: "\<exists>ts. ws = [W_trends ts] \<and> trends (apply_writes st ws) = ts \<and>
         (\<forall>t \<in> set ts. comma \<notin> set t \<and> t \<noteq> [] \<and> \<not> isspace (hd t) \<and> \<not> isspace (last t))"
    if "analyze_and_get_trends d st r = Inr (ws, r')" for st ws and r r' :: "'a run"
  proof -
    from analyze_Inr [OF that] obtain c where "ws = [W_trends (parse_trends c)]"
      by blast
    then show ?thesis
      using clean by (auto simp: apply_writes_def)
  qed
  have B: "trends (apply_writes st ws) = trends st"
    if "research_trends_context d st r = Inr (ws, r')" for st ws and r r' :: "'a run"
    using research_Inr [OF that] by (auto simp: apply_writes_def)
  have C: "trends (apply_writes st ws) = trends st"
    if "synthesize_report d st r = Inr (ws, r')" for st ws and r r' :: "'a run"
    using synthesize_Inr [OF that] by (auto simp: apply_writes_def)
  have D: "\<forall>t \<in> set (trends s). comma \<notin> set t \<and> t \<noteq> [] \<and> \<not> isspace (hd t) \<and> \<not> isspace (last t)"
    if "app_ainvoke d st r = Inr (s, r')"
  proof -
    from app_ainvoke_Inr [OF that] obtain ws1 r1 ws2 r2 ws3 where
      1: "analyze_and_get_trends d st (enter ''get_trends'' r) = Inr (ws1, r1)" and
      2: "research_trends_context d (apply_writes st ws1) (enter ''research_context'' r1) =
           Inr (ws2, r2)" and
      3: "synthesize_report d (apply_writes (apply_writes st ws1) ws2) (enter ''synthesize'' r2) =
           Inr (ws3, r')" and
      s: "s = apply_writes (apply_writes (apply_writes st ws1) ws2) ws3"
      by blast
    have "trends s = trends (apply_writes st ws1)"
      using B [OF 2] C [OF 3] s by simp
    with A [OF 1] show ?thesis
      by auto
  qed
  show ?thesis
  proof (intro conjI impI)
    assume "analyze_and_get_trends d st r = Inr (ws, r')"
    then show "\<exists>ts. ws = [W_trends ts] \<and> trends (apply_writes st ws) = ts \<and>
         (\<forall>t \<in> set ts. comma \<notin> set t \<and> t \<noteq> [] \<and> \<not> isspace (hd t) \<and> \<not> isspace (last t))"
      by (rule A)
  next
    assume "research_trends_context d st r = Inr (ws, r')"
    then show "trends (apply_writes st ws) = trends st"
      by (rule B)
  next
    assume "synthesize_report d st r = Inr (ws, r')"
    then show "trends (apply_writes st ws) = trends st"
      by (rule C)
  next
    assume "app_ainvoke d st r = Inr (s, r')"
    then show "\<forall>t \<in> set (trends s). comma \<notin> set t \<and> t \<noteq> [] \<and> \<not> isspace (hd t) \<and> \<not> isspace (last t)"
      by (rule D)
  qed
qed

theorem trends_entries_clean_and_kept_witness:
  "\<exists>s r'. app_ainvoke (scripted [lit ''Japan'', lit '' a, b ,, c ,d,e,f,g''] (lit ''ok'') demo_results)
             (initial_state (lit ''What is trending in Japan?'')) start = Inr (s, r') \<and>
          trends s = [lit ''a'', lit ''b'', lit ''c'', lit ''d'', lit ''e''] \<and>
          comma \<notin> set (trends s ! 1) \<and> trends s ! 1 \<noteq> [] \<and>
          \<not> isspace (hd (trends s ! 1)) \<and> \<not> isspace (last (trends s ! 1))"
proof -
  let ?reply = "lit '' a, b ,, c ,d,e,f,g''"
  let ?d = "scripted [lit ''Japan'', ?reply] (lit ''ok'') demo_results"
  let ?st = "initial_state (lit ''What is trending in Japan?'')"
  obtain s r' where run: "app_ainvoke ?d ?st start = Inr (s, r')"
    using app_ainvoke_reliable [OF scripted_reliable] by blast
  from app_ainvoke_Inr [OF run] obtain ws1 r1 ws2 r2 ws3 where
    1: "analyze_and_get_trends ?d ?st (enter ''get_trends'' start) = Inr (ws1, r1)" and
    2: "research_trends_context ?d (apply_writes ?st ws1) (enter ''research_context'' r1) =
         Inr (ws2, r2)" and
    3: "synthesize_report ?d (apply_writes (apply_writes ?st ws1) ws2) (enter ''synthesize'' r2) =
         Inr (ws3, r')" and
    s: "s = apply_writes (apply_writes (apply_writes ?st ws1) ws2) ws3"
    by blast
  have "world (enter ''get_trends'' start) = 0"
    by (simp add: enter_def start_def)
  from 1 [unfolded scripted_analyze_at [OF this]] have ws1: "ws1 = [W_trends (parse_trends ?reply)]"
    by simp
  have "trends s = trends (apply_writes (apply_writes ?st ws1) ws2)"
    unfolding s using trends_entries_clean_and_kept [of ?d _ _ ws3 r'] 3 by blast
  also have "\<dots> = trends (apply_writes ?st ws1)"
    using trends_entries_clean_and_kept [of ?d _ _ ws2 r2] 2 by blast
  also have "\<dots> = [lit ''a'', lit ''b'', lit ''c'', lit ''d'', lit ''e'']"
    by (simp add: ws1 apply_writes_def parse_demo)
  finally have ts: "trends s = [lit ''a'', lit ''b'', lit ''c'', lit ''d'', lit ''e'']" .
  then have "trends s ! 1 \<in> set (trends s)"
    by simp
  moreover have "\<forall>t \<in> set (trends s).
      comma \<notin> set t \<and> t \<noteq> [] \<and> \<not> isspace (hd t) \<and> \<not> isspace (last t)"
    using trends_entries_clean_and_kept [of ?d ?st start _ r' s] run by blast
  ultimately have "comma \<notin> set (trends s ! 1) \<and> trends s ! 1 \<noteq> [] \<and>
      \<not> isspace (hd (trends s ! 1)) \<and> \<not> isspace (last (trends s ! 1))"
    by blast
  with run ts show ?thesis
    by blast
qed

end
